theory Spec2Isabelle
  imports Main "HOL-Library.Sublist" "HOL-Library.AList" "HOL-Library.Char_ord"
    "HOL-Library.List_Lexorder"
begin

section \<open>Path strings\<close>

text \<open>
  The engine (\<^verbatim>\<open>src/sync.ts\<close>) manipulates paths as plain strings through
  \<^verbatim>\<open>join\<close> and \<^verbatim>\<open>relative\<close> of Node's POSIX \<^verbatim>\<open>path\<close> module and compares
  them with \<^verbatim>\<open>===\<close> and \<^verbatim>\<open>startsWith\<close>. These library functions are modelled
  here on character lists. The process's working directory, against which Node
  resolves a relative path, is taken to be \<^verbatim>\<open>/\<close>.
\<close>

definition sep :: char where
  "sep = CHR ''/''"

definition isAbsolute :: "string \<Rightarrow> bool" where
  "isAbsolute p = (case p of [] \<Rightarrow> False | c # _ \<Rightarrow> c = sep)"

text \<open>\<^verbatim>\<open>p.split('/')\<close>: the pieces between separators, empty pieces included.\<close>

fun split_sep :: "string \<Rightarrow> string list" where
  "split_sep [] = [[]]"
| "split_sep (c # cs) =
     (if c = sep then [] # split_sep cs
      else (case split_sep cs of [] \<Rightarrow> [[c]] | x # xs \<Rightarrow> (c # x) # xs))"

text \<open>\<^verbatim>\<open>segs.join('/')\<close>.\<close>

fun join_sep :: "string list \<Rightarrow> string" where
  "join_sep [] = []"
| "join_sep [x] = x"
| "join_sep (x # y # ys) = x @ sep # join_sep (y # ys)"

text \<open>The non-empty components of a path, as the kernel's path resolution reads them.\<close>

definition comps :: "string \<Rightarrow> string list" where
  "comps p = filter (\<lambda>s. s \<noteq> []) (split_sep p)"

text \<open>
  \<^verbatim>\<open>normalizeString(path, allowAboveRoot)\<close>: empty and \<^verbatim>\<open>.\<close> segments vanish, a
  \<^verbatim>\<open>..\<close> segment removes the segment before it unless that is itself \<^verbatim>\<open>..\<close> or
  there is none, in which case it is kept only when \<^verbatim>\<open>allowAboveRoot\<close> holds.
  The result is kept as the list of its segments.
\<close>

definition norm_step :: "bool \<Rightarrow> string list \<Rightarrow> string \<Rightarrow> string list" where
  "norm_step allowAboveRoot res seg =
     (if seg = [] \<or> seg = ''.'' then res
      else if seg = ''..'' then
        (if res \<noteq> [] \<and> last res \<noteq> ''..'' then butlast res
         else if allowAboveRoot then res @ [''..''] else res)
      else res @ [seg])"

definition normalizeString :: "string \<Rightarrow> bool \<Rightarrow> string list" where
  "normalizeString path allowAboveRoot = foldl (norm_step allowAboveRoot) [] (split_sep path)"

definition normalize :: "string \<Rightarrow> string" where
  "normalize path =
     (if path = [] then ''.''
      else
        let isAbs = isAbsolute path;
            trailingSeparator = (last path = sep);
            body = join_sep (normalizeString path (\<not> isAbs))
        in if body = [] then (if isAbs then ''/'' else if trailingSeparator then ''./'' else ''.'')
           else (if isAbs then ''/'' else []) @ body @ (if trailingSeparator then ''/'' else []))"

text \<open>\<^verbatim>\<open>path.join(...args)\<close>: the non-empty arguments joined by \<^verbatim>\<open>/\<close>, then normalized.\<close>

definition join :: "string list \<Rightarrow> string" where
  "join args =
     (let joined = filter (\<lambda>a. a \<noteq> []) args
      in if joined = [] then ''.'' else normalize (join_sep joined))"

text \<open>
  \<^verbatim>\<open>path.resolve(p)\<close> with working directory \<^verbatim>\<open>/\<close>: the absolute normal form,
  kept as its segments.
\<close>

definition resolve :: "string \<Rightarrow> string list" where
  "resolve p = normalizeString p False"

text \<open>
  \<^verbatim>\<open>path.relative(from, to)\<close>: both ends are resolved, their common leading
  segments are dropped, and every remaining segment of \<^verbatim>\<open>from\<close> becomes \<^verbatim>\<open>..\<close>.
\<close>

fun strip_common :: "string list \<Rightarrow> string list \<Rightarrow> string list \<times> string list" where
  "strip_common (x # xs) (y # ys) = (if x = y then strip_common xs ys else (x # xs, y # ys))"
| "strip_common xs ys = (xs, ys)"

definition relative :: "string \<Rightarrow> string \<Rightarrow> string" where
  "relative from to =
     (if from = to then []
      else case strip_common (resolve from) (resolve to) of
             (up, down) \<Rightarrow> join_sep (replicate (length up) ''..'' @ down))"

text \<open>\<^verbatim>\<open>s.startsWith(t)\<close> on strings is the list prefix order.\<close>

definition startsWith :: "string \<Rightarrow> string \<Rightarrow> bool" where
  "startsWith s t = prefix t s"


section \<open>The file system\<close>

text \<open>
  A file system is a tree: a regular file with its bytes, a symbolic link with
  its stored destination text, or a directory with its entries in directory
  order. The flag of a directory says whether the process may search it and
  write to it; a directory of mode 000 has the flag \<open>False\<close>.
\<close>

datatype node = File string | Link string | Dir bool "(string \<times> node) list"

datatype errno = ENOENT | EEXIST | ENOTDIR | EISDIR | EACCES | ELOOP | EINVAL | ENAMETOOLONG

fun get :: "node \<Rightarrow> string list \<Rightarrow> node option" where
  "get n [] = Some n"
| "get (Dir ok kids) (c # cs) = (case map_of kids c of None \<Rightarrow> None | Some m \<Rightarrow> get m cs)"
| "get (File _) (c # cs) = None"
| "get (Link _) (c # cs) = None"

text \<open>
  \<open>put l v fs\<close> replaces (\<open>Some\<close>) or removes (\<open>None\<close>) the entry at location
  \<open>l\<close>; a new entry goes to the end of its directory.
\<close>

fun put :: "string list \<Rightarrow> node option \<Rightarrow> node \<Rightarrow> node" where
  "put [] v n = (case v of None \<Rightarrow> n | Some m \<Rightarrow> m)"
| "put (c # cs) v (Dir ok kids) =
     (if cs = [] then
        Dir ok (case v of None \<Rightarrow> AList.delete c kids | Some m \<Rightarrow> AList.update c m kids)
      else (case map_of kids c of
              None \<Rightarrow> Dir ok kids
            | Some m \<Rightarrow> Dir ok (AList.update c (put cs v m) kids)))"
| "put (c # cs) v (File b) = File b"
| "put (c # cs) v (Link d) = Link d"

text \<open>
  The limits of the kernel: a path of \<open>PATH_MAX\<close> bytes or more (the
  terminating byte counts) is refused, and so is the empty path; no directory
  holds a name longer than \<open>NAME_MAX\<close> bytes, and looking one up is an error.
\<close>

definition NAME_MAX :: nat where
  "NAME_MAX = 255"

definition PATH_MAX :: nat where
  "PATH_MAX = 4096"

text \<open>
  Path resolution, as the kernel does it: component by component from the
  root, through searchable directories, following a symbolic link met on the
  way (and the last one too when \<open>follow\<close> holds), at most \<open>fuel\<close> links in
  all. The result is the location reached; its last component may not exist
  yet.
\<close>

fun walk :: "node \<Rightarrow> nat \<Rightarrow> bool \<Rightarrow> string list \<Rightarrow> string list \<Rightarrow> errno + string list" where
  "walk fs fuel follow cur [] = Inr cur"
| "walk fs fuel follow cur (c # cs) =
     (case get fs cur of
        None \<Rightarrow> Inl ENOENT
      | Some (File _) \<Rightarrow> Inl ENOTDIR
      | Some (Link _) \<Rightarrow> Inl ENOTDIR
      | Some (Dir ok kids) \<Rightarrow>
          if \<not> ok then Inl EACCES
          else if c = ''.'' then walk fs fuel follow cur cs
          else if c = ''..'' then walk fs fuel follow (butlast cur) cs
          else (case map_of kids c of
                  None \<Rightarrow> if NAME_MAX < length c then Inl ENAMETOOLONG
                          else if cs = [] then Inr (cur @ [c]) else Inl ENOENT
                | Some (File _) \<Rightarrow> if cs = [] then Inr (cur @ [c]) else Inl ENOTDIR
                | Some (Dir _ _) \<Rightarrow> walk fs fuel follow (cur @ [c]) cs
                | Some (Link d) \<Rightarrow>
                    if cs = [] \<and> \<not> follow then Inr (cur @ [c])
                    else if fuel = 0 then Inl ELOOP
                    else walk fs (fuel - 1) follow
                           (if isAbsolute d then [] else cur) (comps d @ cs)))"

definition MAXSYMLINKS :: nat where
  "MAXSYMLINKS = 40"

text \<open>The resolution of a path string handed to a system call.\<close>

definition path_walk :: "node \<Rightarrow> bool \<Rightarrow> string \<Rightarrow> errno + string list" where
  "path_walk fs follow p =
     (if p = [] then Inl ENOENT
      else if PATH_MAX \<le> length p then Inl ENAMETOOLONG
      else walk fs MAXSYMLINKS follow [] (comps p))"

text \<open>
  A path that ends in a separator asks for a directory: \<^verbatim>\<open>stat\<close> and \<^verbatim>\<open>lstat\<close>
  then follow a final link, and answer \<open>ENOTDIR\<close> for a regular file.
\<close>

definition dir_wanted :: "string \<Rightarrow> bool" where
  "dir_wanted p = (p \<noteq> [] \<and> last p = sep)"

definition locate :: "node \<Rightarrow> bool \<Rightarrow> string \<Rightarrow> errno + string list" where
  "locate fs follow p =
     (if dir_wanted p then
        (case path_walk fs True p of
           Inl e \<Rightarrow> Inl e
         | Inr l \<Rightarrow> (case get fs l of Some (File _) \<Rightarrow> Inl ENOTDIR | _ \<Rightarrow> Inr l))
      else path_walk fs follow p)"

definition lstatSync :: "node \<Rightarrow> string \<Rightarrow> errno + node" where
  "lstatSync fs p =
     (case locate fs False p of
        Inl e \<Rightarrow> Inl e
      | Inr l \<Rightarrow> (case get fs l of None \<Rightarrow> Inl ENOENT | Some n \<Rightarrow> Inr n))"

definition statSync :: "node \<Rightarrow> string \<Rightarrow> errno + node" where
  "statSync fs p =
     (case locate fs True p of
        Inl e \<Rightarrow> Inl e
      | Inr l \<Rightarrow> (case get fs l of None \<Rightarrow> Inl ENOENT | Some n \<Rightarrow> Inr n))"

text \<open>\<^verbatim>\<open>existsSync\<close> follows links and answers \<open>False\<close> on every error.\<close>

definition existsSync :: "node \<Rightarrow> string \<Rightarrow> bool" where
  "existsSync fs p = (case statSync fs p of Inl _ \<Rightarrow> False | Inr _ \<Rightarrow> True)"

definition isSymbolicLink :: "node \<Rightarrow> bool" where
  "isSymbolicLink n = (case n of Link _ \<Rightarrow> True | _ \<Rightarrow> False)"

definition isDirectory :: "node \<Rightarrow> bool" where
  "isDirectory n = (case n of Dir _ _ \<Rightarrow> True | _ \<Rightarrow> False)"

definition readlinkSync :: "node \<Rightarrow> string \<Rightarrow> errno + string" where
  "readlinkSync fs p =
     (case lstatSync fs p of
        Inl e \<Rightarrow> Inl e
      | Inr (Link d) \<Rightarrow> Inr d
      | Inr _ \<Rightarrow> Inl EINVAL)"

text \<open>
  \<^verbatim>\<open>readdirSync(p, { withFileTypes: true })\<close>: the entries of the directory,
  each with its own type (a link is reported as a link, never as what it
  points to), sorted by name in byte order, as \<^verbatim>\<open>scandir\<close> delivers them to
  Node.
\<close>

definition readdirSync :: "node \<Rightarrow> string \<Rightarrow> errno + (string \<times> node) list" where
  "readdirSync fs p =
     (case statSync fs p of
        Inl e \<Rightarrow> Inl e
      | Inr (Dir ok kids) \<Rightarrow> if ok then Inr (sort_key fst kids) else Inl EACCES
      | Inr _ \<Rightarrow> Inl ENOTDIR)"

text \<open>
  \<^verbatim>\<open>unlink\<close> and \<^verbatim>\<open>symlink\<close> never follow a link at the end of the path. With
  a trailing separator \<^verbatim>\<open>unlink\<close> refuses what is not a directory and
  \<^verbatim>\<open>symlink\<close> creates nothing. \<^verbatim>\<open>symlink\<close> refuses an empty destination and one
  of \<open>PATH_MAX\<close> bytes or more.
\<close>

definition unlinkSync :: "node \<Rightarrow> string \<Rightarrow> errno + node" where
  "unlinkSync fs p =
     (case path_walk fs False p of
        Inl e \<Rightarrow> Inl e
      | Inr l \<Rightarrow>
          (case get fs l of
             None \<Rightarrow> Inl ENOENT
           | Some (Dir _ _) \<Rightarrow> Inl EISDIR
           | Some _ \<Rightarrow> if dir_wanted p then Inl ENOTDIR else Inr (put l None fs)))"

definition symlinkSync :: "node \<Rightarrow> string \<Rightarrow> string \<Rightarrow> errno + node" where
  "symlinkSync fs dest p =
     (if dest = [] then Inl ENOENT
      else if PATH_MAX \<le> length dest then Inl ENAMETOOLONG
      else case path_walk fs False p of
             Inl e \<Rightarrow> Inl e
           | Inr l \<Rightarrow>
               (case get fs l of
                  Some _ \<Rightarrow> Inl EEXIST
                | None \<Rightarrow> if dir_wanted p then Inl ENOENT
                          else Inr (put l (Some (Link dest)) fs)))"

text \<open>
  \<^verbatim>\<open>mkdirSync(p, { recursive: true })\<close>: every missing directory on the way to
  \<open>p\<close> is created, outermost first. Where \<^verbatim>\<open>mkdir\<close> finds an entry, Node asks
  \<^verbatim>\<open>stat\<close>: a directory (also one reached through a link) is accepted, a link
  that leads nowhere gives the error of \<^verbatim>\<open>stat\<close>, and anything else is an
  error: \<open>EEXIST\<close> when it sits at \<open>p\<close> itself, \<open>ENOTDIR\<close> when it sits on
  the way.
\<close>

definition ensure_dir :: "node \<Rightarrow> string list \<Rightarrow> errno + node" where
  "ensure_dir fs cs =
     (case walk fs MAXSYMLINKS False [] cs of
        Inl e \<Rightarrow> Inl e
      | Inr l \<Rightarrow>
          (case get fs l of
             None \<Rightarrow> Inr (put l (Some (Dir True [])) fs)
           | Some (Dir _ _) \<Rightarrow> Inr fs
           | Some (File _) \<Rightarrow> Inl EEXIST
           | Some (Link _) \<Rightarrow>
               (case walk fs MAXSYMLINKS True [] cs of
                  Inl e \<Rightarrow> Inl e
                | Inr l' \<Rightarrow>
                    (case get fs l' of
                       None \<Rightarrow> Inl ENOENT
                     | Some (Dir _ _) \<Rightarrow> Inr fs
                     | Some _ \<Rightarrow> Inl EEXIST))))"

fun mkdir_from :: "node \<Rightarrow> string list \<Rightarrow> string list \<Rightarrow> errno + node" where
  "mkdir_from fs done [] = Inr fs"
| "mkdir_from fs done (c # cs) =
     (case ensure_dir fs (done @ [c]) of
        Inl e \<Rightarrow> Inl (if e = EEXIST \<and> cs \<noteq> [] then ENOTDIR else e)
      | Inr fs' \<Rightarrow> mkdir_from fs' (done @ [c]) cs)"

definition mkdirSync :: "node \<Rightarrow> string \<Rightarrow> errno + node" where
  "mkdirSync fs p =
     (if p = [] then Inl ENOENT
      else if PATH_MAX \<le> length p then Inl ENAMETOOLONG
      else mkdir_from fs [] (comps p))"


section \<open>The engine: \<^verbatim>\<open>src/sync.ts\<close>\<close>

definition CANONICAL_SOURCE :: string where
  "CANONICAL_SOURCE = ''.agents/skills''"

record AgentTarget =
  skillsDir :: string

text \<open>
  \<open>agents\<close> is the \<^verbatim>\<open>Record<string, AgentTarget>\<close> in the order in which
  \<^verbatim>\<open>Object.entries\<close> lists it; \<open>filterAgents\<close> and \<open>dryRun\<close> are optional in
  the source, and an omitted \<open>dryRun\<close> behaves as \<open>False\<close>.
\<close>

record SyncOptions =
  agents :: "(string \<times> AgentTarget) list"
  filterAgents :: "string list option"
  dryRun :: bool

record SyncEntry =
  skill :: string
  agent :: string
  source :: string
  target :: string
  reason :: "string option"

record SyncResult =
  created :: "SyncEntry list"
  skipped :: "SyncEntry list"
  failed :: "SyncEntry list"

record StatusEntry =
  st_agent :: string
  st_skillsDir :: string
  linked :: "string list"
  unlinked :: "string list"
  wrong :: "string list"

text \<open>
  An exception leaving the engine: the \<^verbatim>\<open>Error\<close> thrown by \<open>discoverSkills\<close>
  (with the root it names), or the error of a file-system call.
\<close>

datatype error = SourceMissing string | Sys errno

definition discoverSkills :: "node \<Rightarrow> string \<Rightarrow> error + string list" where
  "discoverSkills fs root =
     (let skillsDir = join [root, CANONICAL_SOURCE]
      in if \<not> existsSync fs skillsDir then Inl (SourceMissing root)
         else (case readdirSync fs skillsDir of
                 Inl e \<Rightarrow> Inl (Sys e)
               | Inr entries \<Rightarrow> Inr (map fst (filter (\<lambda>e. isDirectory (snd e)) entries))))"

text \<open>\<open>isSymlink\<close>: \<^verbatim>\<open>lstatSync(path).isSymbolicLink()\<close>, and \<open>False\<close> when it throws.\<close>

definition isSymlink :: "node \<Rightarrow> string \<Rightarrow> bool" where
  "isSymlink fs path =
     (case lstatSync fs path of Inl _ \<Rightarrow> False | Inr n \<Rightarrow> isSymbolicLink n)"

definition targetAgents :: "SyncOptions \<Rightarrow> (string \<times> AgentTarget) list" where
  "targetAgents options =
     (case filterAgents options of
        Some names \<Rightarrow> filter (\<lambda>(name, _). name \<in> set names) (agents options)
      | None \<Rightarrow> agents options)"

text \<open>
  The tail of the inner loop body of \<open>syncSkills\<close> (``Create the symlink''):
  the mirror root is created, the link is made, the pair is pushed to
  \<open>created\<close>. A throwing call leaves with the error and the file system as it
  is at that moment.
\<close>

definition sync_create ::
  "bool \<Rightarrow> string \<Rightarrow> string \<Rightarrow> string \<Rightarrow> SyncEntry \<Rightarrow> SyncResult \<Rightarrow> node
     \<Rightarrow> (error + SyncResult) \<times> node" where
  "sync_create dry agentSkillsDir src tgt entry result fs =
     (let relativeSource = relative agentSkillsDir src
      in if \<not> dry then
           (case mkdirSync fs agentSkillsDir of
              Inl e \<Rightarrow> (Inl (Sys e), fs)
            | Inr fs1 \<Rightarrow>
                (case symlinkSync fs1 relativeSource tgt of
                   Inl e \<Rightarrow> (Inl (Sys e), fs1)
                 | Inr fs2 \<Rightarrow> (Inr (result\<lparr>created := created result @ [entry]\<rparr>), fs2)))
         else (Inr (result\<lparr>created := created result @ [entry]\<rparr>), fs))"

text \<open>The inner loop body of \<open>syncSkills\<close>, for one skill of one agent.\<close>

definition sync_body ::
  "string \<Rightarrow> bool \<Rightarrow> string \<Rightarrow> string \<Rightarrow> string \<Rightarrow> SyncResult \<Rightarrow> node
     \<Rightarrow> (error + SyncResult) \<times> node" where
  "sync_body root dry agentName agentSkillsDir sk result fs =
     (let src = join [root, CANONICAL_SOURCE, sk];
          tgt = join [agentSkillsDir, sk];
          entry = \<lparr>skill = sk, agent = agentName, source = src, target = tgt, reason = None\<rparr>
      in if existsSync fs tgt \<or> isSymlink fs tgt then
           (if isSymlink fs tgt then
              (case readlinkSync fs tgt of
                 Inl e \<Rightarrow> (Inl (Sys e), fs)
               | Inr currentTarget \<Rightarrow>
                   let expectedTarget = relative agentSkillsDir src
                   in if currentTarget = expectedTarget then
                        (Inr (result\<lparr>skipped := skipped result @
                           [entry\<lparr>reason := Some ''already linked''\<rparr>]\<rparr>), fs)
                      else if \<not> dry then
                        (case unlinkSync fs tgt of
                           Inl e \<Rightarrow> (Inl (Sys e), fs)
                         | Inr fs' \<Rightarrow> sync_create dry agentSkillsDir src tgt entry result fs')
                      else sync_create dry agentSkillsDir src tgt entry result fs)
            else
              (Inr (result\<lparr>skipped := skipped result @
                 [entry\<lparr>reason := Some ''real directory exists, skipping''\<rparr>]\<rparr>), fs))
         else sync_create dry agentSkillsDir src tgt entry result fs)"

text \<open>The inner loop, over the discovered skills.\<close>

fun sync_skills ::
  "string \<Rightarrow> bool \<Rightarrow> string \<Rightarrow> string \<Rightarrow> string list \<Rightarrow> SyncResult \<Rightarrow> node
     \<Rightarrow> (error + SyncResult) \<times> node" where
  "sync_skills root dry agentName agentSkillsDir [] result fs = (Inr result, fs)"
| "sync_skills root dry agentName agentSkillsDir (sk # sks) result fs =
     (case sync_body root dry agentName agentSkillsDir sk result fs of
        (Inl e, fs') \<Rightarrow> (Inl e, fs')
      | (Inr result', fs') \<Rightarrow> sync_skills root dry agentName agentSkillsDir sks result' fs')"

text \<open>The outer loop, over the selected agents.\<close>

fun sync_agents ::
  "string \<Rightarrow> bool \<Rightarrow> string list \<Rightarrow> (string \<times> AgentTarget) list \<Rightarrow> SyncResult \<Rightarrow> node
     \<Rightarrow> (error + SyncResult) \<times> node" where
  "sync_agents root dry skills [] result fs = (Inr result, fs)"
| "sync_agents root dry skills ((agentName, agentConfig) # rest) result fs =
     (let agentSkillsDir = join [root, skillsDir agentConfig]
      in case sync_skills root dry agentName agentSkillsDir skills result fs of
           (Inl e, fs') \<Rightarrow> (Inl e, fs')
         | (Inr result', fs') \<Rightarrow> sync_agents root dry skills rest result' fs')"

definition emptyResult :: SyncResult where
  "emptyResult = \<lparr>created = [], skipped = [], failed = []\<rparr>"

definition syncSkills :: "string \<Rightarrow> SyncOptions \<Rightarrow> node \<Rightarrow> (error + SyncResult) \<times> node" where
  "syncSkills root options fs =
     (case discoverSkills fs root of
        Inl e \<Rightarrow> (Inl e, fs)
      | Inr skills \<Rightarrow> sync_agents root (dryRun options) skills (targetAgents options) emptyResult fs)"

text \<open>The loop body of \<open>cleanSkills\<close>, for one entry of one mirror root.\<close>

definition clean_body ::
  "string \<Rightarrow> bool \<Rightarrow> string \<Rightarrow> string \<Rightarrow> string \<Rightarrow> SyncResult \<Rightarrow> node
     \<Rightarrow> (error + SyncResult) \<times> node" where
  "clean_body root dry agentName agentSkillsDir name result fs =
     (let tgt = join [agentSkillsDir, name];
          syncEntry = \<lparr>skill = name, agent = agentName,
                       source = join [root, CANONICAL_SOURCE, name], target = tgt, reason = None\<rparr>
      in if \<not> isSymlink fs tgt then
           (Inr (result\<lparr>skipped := skipped result @
              [syncEntry\<lparr>reason := Some ''not a symlink, preserving''\<rparr>]\<rparr>), fs)
         else
           (case readlinkSync fs tgt of
              Inl e \<Rightarrow> (Inl (Sys e), fs)
            | Inr linkTarget \<Rightarrow>
                let resolvedTarget = join [agentSkillsDir, linkTarget];
                    canonicalDir = join [root, CANONICAL_SOURCE]
                in if \<not> startsWith resolvedTarget canonicalDir then
                     (Inr (result\<lparr>skipped := skipped result @
                        [syncEntry\<lparr>reason := Some ''symlink points elsewhere, preserving''\<rparr>]\<rparr>), fs)
                   else if \<not> dry then
                     (case unlinkSync fs tgt of
                        Inl e \<Rightarrow> (Inl (Sys e), fs)
                      | Inr fs' \<Rightarrow> (Inr (result\<lparr>created := created result @ [syncEntry]\<rparr>), fs'))
                   else (Inr (result\<lparr>created := created result @ [syncEntry]\<rparr>), fs)))"

fun clean_entries ::
  "string \<Rightarrow> bool \<Rightarrow> string \<Rightarrow> string \<Rightarrow> string list \<Rightarrow> SyncResult \<Rightarrow> node
     \<Rightarrow> (error + SyncResult) \<times> node" where
  "clean_entries root dry agentName agentSkillsDir [] result fs = (Inr result, fs)"
| "clean_entries root dry agentName agentSkillsDir (name # names) result fs =
     (case clean_body root dry agentName agentSkillsDir name result fs of
        (Inl e, fs') \<Rightarrow> (Inl e, fs')
      | (Inr result', fs') \<Rightarrow> clean_entries root dry agentName agentSkillsDir names result' fs')"

fun clean_agents ::
  "string \<Rightarrow> bool \<Rightarrow> (string \<times> AgentTarget) list \<Rightarrow> SyncResult \<Rightarrow> node
     \<Rightarrow> (error + SyncResult) \<times> node" where
  "clean_agents root dry [] result fs = (Inr result, fs)"
| "clean_agents root dry ((agentName, agentConfig) # rest) result fs =
     (let agentSkillsDir = join [root, skillsDir agentConfig]
      in if \<not> existsSync fs agentSkillsDir then clean_agents root dry rest result fs
         else (case readdirSync fs agentSkillsDir of
                 Inl e \<Rightarrow> (Inl (Sys e), fs)
               | Inr entries \<Rightarrow>
                   (case clean_entries root dry agentName agentSkillsDir (map fst entries) result fs of
                      (Inl e, fs') \<Rightarrow> (Inl e, fs')
                    | (Inr result', fs') \<Rightarrow> clean_agents root dry rest result' fs')))"

definition cleanSkills :: "string \<Rightarrow> SyncOptions \<Rightarrow> node \<Rightarrow> (error + SyncResult) \<times> node" where
  "cleanSkills root options fs =
     clean_agents root (dryRun options) (targetAgents options) emptyResult fs"

text \<open>
  \<open>getStatus\<close> reads only. The three buckets of one agent are filled skill
  by skill.
\<close>

definition status_body ::
  "string \<Rightarrow> string \<Rightarrow> node \<Rightarrow> string \<Rightarrow> string list \<times> string list \<times> string list
     \<Rightarrow> error + string list \<times> string list \<times> string list" where
  "status_body root agentSkillsDir fs sk acc =
     (case acc of (lnk, unl, wrg) \<Rightarrow>
        let tgt = join [agentSkillsDir, sk];
            expectedTarget = relative agentSkillsDir (join [root, CANONICAL_SOURCE, sk])
        in if isSymlink fs tgt then
             (case readlinkSync fs tgt of
                Inl e \<Rightarrow> Inl (Sys e)
              | Inr actual \<Rightarrow>
                  if actual = expectedTarget then Inr (lnk @ [sk], unl, wrg)
                  else Inr (lnk, unl, wrg @ [sk]))
           else if existsSync fs tgt then Inr (lnk @ [sk], unl, wrg)
           else Inr (lnk, unl @ [sk], wrg))"

fun status_skills ::
  "string \<Rightarrow> string \<Rightarrow> node \<Rightarrow> string list \<Rightarrow> string list \<times> string list \<times> string list
     \<Rightarrow> error + string list \<times> string list \<times> string list" where
  "status_skills root agentSkillsDir fs [] acc = Inr acc"
| "status_skills root agentSkillsDir fs (sk # sks) acc =
     (case status_body root agentSkillsDir fs sk acc of
        Inl e \<Rightarrow> Inl e
      | Inr acc' \<Rightarrow> status_skills root agentSkillsDir fs sks acc')"

fun status_agents ::
  "string \<Rightarrow> node \<Rightarrow> string list \<Rightarrow> (string \<times> AgentTarget) list \<Rightarrow> StatusEntry list
     \<Rightarrow> error + StatusEntry list" where
  "status_agents root fs skills [] statuses = Inr statuses"
| "status_agents root fs skills ((agentName, agentConfig) # rest) statuses =
     (let agentSkillsDir = join [root, skillsDir agentConfig]
      in case status_skills root agentSkillsDir fs skills ([], [], []) of
           Inl e \<Rightarrow> Inl e
         | Inr (lnk, unl, wrg) \<Rightarrow>
             status_agents root fs skills rest
               (statuses @ [\<lparr>st_agent = agentName, st_skillsDir = skillsDir agentConfig,
                              linked = lnk, unlinked = unl, wrong = wrg\<rparr>]))"

definition getStatus :: "string \<Rightarrow> SyncOptions \<Rightarrow> node \<Rightarrow> error + StatusEntry list" where
  "getStatus root options fs =
     (case discoverSkills fs root of
        Inl e \<Rightarrow> Inl e
      | Inr skills \<Rightarrow> status_agents root fs skills (targetAgents options) [])"


section \<open>Auxiliary notions\<close>

text \<open>
  Resolving a path with and without following a final link gives the same
  answer, except where the location reached holds a link.
\<close>

definition follow_agrees :: "node \<Rightarrow> errno + string list \<Rightarrow> errno + string list \<Rightarrow> bool" where
  "follow_agrees fs r r' =
     (case r of
        Inl e \<Rightarrow> r' = Inl e
      | Inr l \<Rightarrow> (case get fs l of Some (Link d) \<Rightarrow> True | _ \<Rightarrow> r' = Inr l))"


text \<open>The \<^verbatim>\<open>entry\<close> object that both loop bodies build for a pair.\<close>

definition mk_entry :: "string \<Rightarrow> string \<Rightarrow> string \<Rightarrow> string \<Rightarrow> SyncEntry" where
  "mk_entry root name dir sk =
     \<lparr>skill = sk, agent = name, source = join [root, CANONICAL_SOURCE, sk],
      target = join [dir, sk], reason = None\<rparr>"

text \<open>Everything a report says, in one list.\<close>

definition outcomes :: "SyncResult \<Rightarrow> SyncEntry list" where
  "outcomes r = created r @ skipped r @ failed r"


text \<open>
  A file name as a directory can hold it: not empty, without separator, and
  neither \<^verbatim>\<open>.\<close> nor \<^verbatim>\<open>..\<close>.
\<close>

definition valid_name :: "string \<Rightarrow> bool" where
  "valid_name s = (s \<noteq> [] \<and> sep \<notin> set s \<and> s \<noteq> ''.'' \<and> s \<noteq> ''..'')"

text \<open>A path none of whose components is \<^verbatim>\<open>.\<close> or \<^verbatim>\<open>..\<close>; every absolute normalized path is one.\<close>

definition plain_path :: "string \<Rightarrow> bool" where
  "plain_path p = (\<forall>c \<in> set (comps p). c \<noteq> ''.'' \<and> c \<noteq> ''..'')"

definition dotless :: "string list \<Rightarrow> bool" where
  "dotless cs = (\<forall>c \<in> set cs. c \<noteq> ''.'' \<and> c \<noteq> ''..'')"

text \<open>
  The own type of an entry, without what a directory contains: what \<^verbatim>\<open>lstat\<close>
  tells about a location.
\<close>

datatype kind = KFile string | KLink string | KDir bool

fun kind_of :: "node \<Rightarrow> kind" where
  "kind_of (File b) = KFile b"
| "kind_of (Link d) = KLink d"
| "kind_of (Dir ok kids) = KDir ok"

definition view :: "node \<Rightarrow> string list \<Rightarrow> kind option" where
  "view fs l = map_option kind_of (get fs l)"

text \<open>Values that \<open>put\<close> writes (nothing, a leaf, an empty directory) and overwrites (nothing, a leaf).\<close>

definition leafy :: "node option \<Rightarrow> bool" where
  "leafy v = (case v of Some (Dir ok kids) \<Rightarrow> kids = [] | _ \<Rightarrow> True)"

definition is_leaf :: "node option \<Rightarrow> bool" where
  "is_leaf v = (case v of Some (Dir ok kids) \<Rightarrow> False | _ \<Rightarrow> True)"

text \<open>
  A location that holds a searchable directory; a location that does not stand
  in the way of one (nothing there, or a searchable directory); and a path all
  of whose prefixes are of the latter sort. Along such a path no symbolic link
  is followed and no permission is denied, so the kernel resolves it
  component by component as it is written.
\<close>

definition okdir :: "node \<Rightarrow> string list \<Rightarrow> bool" where
  "okdir fs l = (view fs l = Some (KDir True))"

definition passable :: "node \<Rightarrow> string list \<Rightarrow> bool" where
  "passable fs l = (case view fs l of None \<Rightarrow> True | Some (KDir ok) \<Rightarrow> ok | Some _ \<Rightarrow> False)"

definition plain :: "node \<Rightarrow> string list \<Rightarrow> bool" where
  "plain fs cs = (\<forall>p \<in> set (prefixes cs). passable fs p)"

text \<open>What stands at the link path of a skill under a mirror root, if the mirror root exists.\<close>

definition look :: "node \<Rightarrow> string list \<Rightarrow> string \<Rightarrow> node option" where
  "look fs cs sk = (if okdir fs cs then get fs (cs @ [sk]) else None)"

text \<open>
  The link text the engine generates for a skill under a mirror root, and the
  link paths that need no action: a link with that text, or a real entry.
\<close>

definition expected :: "string \<Rightarrow> string \<Rightarrow> string \<Rightarrow> string" where
  "expected root d s = relative d (join [root, CANONICAL_SOURCE, s])"

definition settled_node :: "string \<Rightarrow> node option \<Rightarrow> bool" where
  "settled_node exp v = (case v of None \<Rightarrow> False | Some (Link d) \<Rightarrow> d = exp | Some _ \<Rightarrow> True)"

text \<open>
  What creating the link of one pair may change: the link path itself, and
  directories that were missing on the way to the mirror root. Nothing at or
  below any other location changes.
\<close>

definition effect :: "node \<Rightarrow> node \<Rightarrow> string list \<Rightarrow> string \<Rightarrow> string \<Rightarrow> bool" where
  "effect fs fs' cs sk exp =
     ((\<forall>l. view fs' l = view fs l
          \<or> (l = cs @ [sk] \<and> view fs' l = Some (KLink exp))
          \<or> (prefix l cs \<and> view fs l = None \<and> view fs' l = Some (KDir True)))
      \<and> (\<forall>L. \<not> prefix L (cs @ [sk]) \<longrightarrow> get fs' L = get fs L))"

text \<open>Mirror roots none of which lies strictly inside another.\<close>

definition separated :: "string set \<Rightarrow> bool" where
  "separated D = (\<forall>d \<in> D. \<forall>d' \<in> D. \<not> strict_prefix (comps d) (comps d'))"

definition mirror_root :: "string \<Rightarrow> AgentTarget \<Rightarrow> string" where
  "mirror_root root cfg = join [root, skillsDir cfg]"

definition mirror_roots :: "string \<Rightarrow> SyncOptions \<Rightarrow> string list" where
  "mirror_roots root options = map (\<lambda>a. mirror_root root (snd a)) (targetAgents options)"

text \<open>
  The selected mirror roots are plain paths in the file system, and none lies
  strictly inside another.
\<close>

definition plain_mirrors :: "node \<Rightarrow> string \<Rightarrow> SyncOptions \<Rightarrow> bool" where
  "plain_mirrors fs root options =
     ((\<forall>d \<in> set (mirror_roots root options). plain_path d \<and> plain fs (comps d))
      \<and> (\<forall>d \<in> set (mirror_roots root options). \<forall>d' \<in> set (mirror_roots root options).
            \<not> strict_prefix (comps d) (comps d')))"

text \<open>The outcome of a pair that needs no action, and the report of a run in which no pair does.\<close>

definition skip_reason :: "node \<Rightarrow> string" where
  "skip_reason n = (if isSymbolicLink n then ''already linked''
                    else ''real directory exists, skipping'')"

definition skip_entry :: "string \<Rightarrow> node \<Rightarrow> string \<Rightarrow> string \<Rightarrow> string \<Rightarrow> SyncEntry" where
  "skip_entry root fs name d sk =
     (mk_entry root name d sk)\<lparr>reason := Some
        (if isSymlink fs (join [d, sk]) then ''already linked''
         else ''real directory exists, skipping'')\<rparr>"

definition all_skipped :: "string \<Rightarrow> SyncOptions \<Rightarrow> string list \<Rightarrow> node \<Rightarrow> SyncResult" where
  "all_skipped root options skills fs =
     emptyResult\<lparr>skipped := concat (map
        (\<lambda>a. map (skip_entry root fs (fst a) (mirror_root root (snd a))) skills)
        (targetAgents options))\<rparr>"

text \<open>The status of an agent all of whose items are linked.\<close>

definition all_linked :: "string list \<Rightarrow> string \<times> AgentTarget \<Rightarrow> StatusEntry" where
  "all_linked skills a =
     \<lparr>st_agent = fst a, st_skillsDir = skillsDir (snd a),
      linked = skills, unlinked = [], wrong = []\<rparr>"



text \<open>
  A location at which the engine may write: nothing is there, or a symbolic
  link. Two states are related by \<open>only_links_change\<close> when every other
  location holds an entry of the same type (for a regular file: with the same
  content) in both.
\<close>

definition free_spot :: "kind option \<Rightarrow> bool" where
  "free_spot k = (case k of None \<Rightarrow> True | Some (KLink d) \<Rightarrow> True | Some _ \<Rightarrow> False)"

definition only_links_change :: "node \<Rightarrow> node \<Rightarrow> bool" where
  "only_links_change fs fs' = (\<forall>l. view fs' l = view fs l \<or> free_spot (view fs l))"

text \<open>
  Every selected mirror root that exists lists entries with pairwise different
  file names, as a directory does.
\<close>

definition tidy_mirrors :: "node \<Rightarrow> string \<Rightarrow> SyncOptions \<Rightarrow> bool" where
  "tidy_mirrors fs root options =
     (\<forall>d \<in> set (mirror_roots root options).
        case get fs (comps d) of
          Some (Dir ok kids) \<Rightarrow> distinct (map fst kids) \<and> (\<forall>n \<in> set (map fst kids). valid_name n)
        | _ \<Rightarrow> True)"

text \<open>
  The part of a \<open>syncSkills\<close> run that precedes one pair: the agents before
  the pair's agent are served in full, then the skills before the pair's skill
  for that agent.
\<close>

definition sync_before ::
  "string \<Rightarrow> bool \<Rightarrow> string list \<Rightarrow> (string \<times> AgentTarget) list \<Rightarrow> string \<Rightarrow> AgentTarget
     \<Rightarrow> string list \<Rightarrow> node \<Rightarrow> (error + SyncResult) \<times> node" where
  "sync_before root dry skills pre name cfg sks1 fs =
     (case sync_agents root dry skills pre emptyResult fs of
        (Inl e, fs') \<Rightarrow> (Inl e, fs')
      | (Inr r0, fs0) \<Rightarrow> sync_skills root dry name (join [root, skillsDir cfg]) sks1 r0 fs0)"

text \<open>
  The bucket of a skill under a mirror root, read off what \<^verbatim>\<open>lstat\<close> answers
  at its link path; and the status entry of an agent built from it.
\<close>

definition is_linked :: "string \<Rightarrow> string \<Rightarrow> node \<Rightarrow> string \<Rightarrow> bool" where
  "is_linked root d fs sk =
     (case lstatSync fs (join [d, sk]) of
        Inl e \<Rightarrow> False
      | Inr (Link x) \<Rightarrow> x = expected root d sk
      | Inr _ \<Rightarrow> True)"

definition is_unlinked :: "string \<Rightarrow> node \<Rightarrow> string \<Rightarrow> bool" where
  "is_unlinked d fs sk = (case lstatSync fs (join [d, sk]) of Inl e \<Rightarrow> True | Inr _ \<Rightarrow> False)"

definition is_wrong :: "string \<Rightarrow> string \<Rightarrow> node \<Rightarrow> string \<Rightarrow> bool" where
  "is_wrong root d fs sk =
     (case lstatSync fs (join [d, sk]) of
        Inr (Link x) \<Rightarrow> x \<noteq> expected root d sk
      | _ \<Rightarrow> False)"

definition status_of :: "string \<Rightarrow> node \<Rightarrow> string list \<Rightarrow> string \<times> AgentTarget \<Rightarrow> StatusEntry" where
  "status_of root fs skills a =
     \<lparr>st_agent = fst a, st_skillsDir = skillsDir (snd a),
      linked = filter (is_linked root (mirror_root root (snd a)) fs) skills,
      unlinked = filter (is_unlinked (mirror_root root (snd a)) fs) skills,
      wrong = filter (is_wrong root (mirror_root root (snd a)) fs) skills\<rparr>"

text \<open>
  Two states are related by \<open>links_from T\<close> when every symbolic link of the
  second that the first does not hold at the same location carries a text of
  \<open>T\<close>.
\<close>

definition links_from :: "string set \<Rightarrow> node \<Rightarrow> node \<Rightarrow> bool" where
  "links_from T fs fs' =
     (\<forall>l x. view fs' l = Some (KLink x) \<longrightarrow> view fs l = Some (KLink x) \<or> x \<in> T)"

text \<open>The link texts that a run generates: one for every skill and selected agent.\<close>

definition item_texts :: "string \<Rightarrow> SyncOptions \<Rightarrow> string list \<Rightarrow> string set" where
  "item_texts root options skills =
     {expected root (mirror_root root (snd a)) sk | a sk. a \<in> set (targetAgents options) \<and> sk \<in> set skills}"
section \<open>Example states\<close>

text \<open>
  A project \<^verbatim>\<open>/p\<close> whose canonical source holds two skill directories, a
  regular file and a symbolic link; one agent is configured.
\<close>

definition demo_fs :: node where
  "demo_fs = Dir True [(''p'', Dir True [(''.agents'', Dir True [(''skills'', Dir True
     [(''a'', Dir True [(''SKILL.md'', File ''# a'')]),
      (''notes.txt'', File ''n''),
      (''b'', Dir True []),
      (''ln'', Link ''a'')])])])]"

definition demo_options :: SyncOptions where
  "demo_options = \<lparr>agents = [(''claude-code'', \<lparr>skillsDir = ''.claude/skills''\<rparr>)],
                    filterAgents = None, dryRun = False\<rparr>"

text \<open>A project without canonical source, with a link left over in a mirror root.\<close>

definition orphan_fs :: node where
  "orphan_fs = Dir True [(''p'', Dir True [(''.claude'', Dir True [(''skills'', Dir True
     [(''a'', Link ''../../.agents/skills/a'')])])])]"


text \<open>The same project after a first \<open>syncSkills\<close>, and the report of that run.\<close>

definition demo_report :: SyncResult where
  "demo_report =
     \<lparr>created = [\<lparr>skill = ''a'', agent = ''claude-code'', source = ''/p/.agents/skills/a'',
                   target = ''/p/.claude/skills/a'', reason = None\<rparr>,
                 \<lparr>skill = ''b'', agent = ''claude-code'', source = ''/p/.agents/skills/b'',
                   target = ''/p/.claude/skills/b'', reason = None\<rparr>],
      skipped = [], failed = []\<rparr>"

definition demo_synced_fs :: node where
  "demo_synced_fs = Dir True [(''p'', Dir True
     [(''.agents'', Dir True [(''skills'', Dir True
        [(''a'', Dir True [(''SKILL.md'', File ''# a'')]),
         (''notes.txt'', File ''n''),
         (''b'', Dir True []),
         (''ln'', Link ''a'')])]),
      (''.claude'', Dir True [(''skills'', Dir True
        [(''a'', Link ''../../.agents/skills/a''),
         (''b'', Link ''../../.agents/skills/b'')])])])]"





text \<open>
  A mirror root with one link written by the engine and one that resolves to
  the same directory but is spelled differently.
\<close>

definition linked_fs :: node where
  "linked_fs = Dir True [(''p'', Dir True
     [(''.agents'', Dir True [(''skills'', Dir True [(''a'', Dir True []), (''b'', Dir True [])])]),
      (''.claude'', Dir True [(''skills'', Dir True
        [(''a'', Link ''../../.agents/skills/a''),
         (''b'', Link ''./../../.agents/skills/b'')])])])]"

text \<open>
  A mirror root holding a link into \<^verbatim>\<open>.agents/skills-archive\<close>, a sibling of the
  canonical source root.
\<close>

definition sibling_fs :: node where
  "sibling_fs = Dir True [(''p'', Dir True
     [(''.agents'', Dir True
        [(''skills'', Dir True [(''a'', Dir True [])]),
         (''skills-archive'', Dir True [(''old'', Dir True [(''SKILL.md'', File ''# old'')])])]),
      (''.claude'', Dir True [(''skills'', Dir True
        [(''old'', Link ''../../.agents/skills-archive/old'')])])])]"


text \<open>
  A mirror root in which one item is a real directory of the user's; the state
  and the report after a first \<open>syncSkills\<close>.
\<close>

definition hybrid_fs :: node where
  "hybrid_fs = Dir True [(''p'', Dir True
     [(''.agents'', Dir True [(''skills'', Dir True
        [(''a'', Dir True [(''SKILL.md'', File ''# a'')]), (''b'', Dir True [])])]),
      (''.claude'', Dir True [(''skills'', Dir True
        [(''b'', Dir True [(''SKILL.md'', File ''custom content'')])])])])]"

definition hybrid_synced_fs :: node where
  "hybrid_synced_fs = Dir True [(''p'', Dir True
     [(''.agents'', Dir True [(''skills'', Dir True
        [(''a'', Dir True [(''SKILL.md'', File ''# a'')]), (''b'', Dir True [])])]),
      (''.claude'', Dir True [(''skills'', Dir True
        [(''b'', Dir True [(''SKILL.md'', File ''custom content'')]),
         (''a'', Link ''../../.agents/skills/a'')])])])]"

definition hybrid_report :: SyncResult where
  "hybrid_report =
     \<lparr>created = [\<lparr>skill = ''a'', agent = ''claude-code'', source = ''/p/.agents/skills/a'',
                   target = ''/p/.claude/skills/a'', reason = None\<rparr>],
      skipped = [\<lparr>skill = ''b'', agent = ''claude-code'', source = ''/p/.agents/skills/b'',
                   target = ''/p/.claude/skills/b'',
                   reason = Some ''real directory exists, skipping''\<rparr>],
      failed = []\<rparr>"

definition hybrid_second_report :: SyncResult where
  "hybrid_second_report =
     \<lparr>created = [],
      skipped = [\<lparr>skill = ''a'', agent = ''claude-code'', source = ''/p/.agents/skills/a'',
                   target = ''/p/.claude/skills/a'', reason = Some ''already linked''\<rparr>,
                 \<lparr>skill = ''b'', agent = ''claude-code'', source = ''/p/.agents/skills/b'',
                   target = ''/p/.claude/skills/b'',
                   reason = Some ''real directory exists, skipping''\<rparr>],
      failed = []\<rparr>"

text \<open>
  A mirror root with a stale link, a missing link and a real directory; the
  state after \<open>syncSkills\<close>.
\<close>

definition stale_fs :: node where
  "stale_fs = Dir True [(''p'', Dir True
     [(''.agents'', Dir True [(''skills'', Dir True
        [(''a'', Dir True []), (''b'', Dir True []), (''c'', Dir True [])])]),
      (''.claude'', Dir True [(''skills'', Dir True
        [(''a'', Link ''../../wrong''),
         (''c'', Dir True [(''SKILL.md'', File ''custom content'')])])])])]"

definition stale_synced_fs :: node where
  "stale_synced_fs = Dir True [(''p'', Dir True
     [(''.agents'', Dir True [(''skills'', Dir True
        [(''a'', Dir True []), (''b'', Dir True []), (''c'', Dir True [])])]),
      (''.claude'', Dir True [(''skills'', Dir True
        [(''c'', Dir True [(''SKILL.md'', File ''custom content'')]),
         (''a'', Link ''../../.agents/skills/a''),
         (''b'', Link ''../../.agents/skills/b'')])])])]"

definition stale_report :: SyncResult where
  "stale_report =
     \<lparr>created = [\<lparr>skill = ''a'', agent = ''claude-code'', source = ''/p/.agents/skills/a'',
                   target = ''/p/.claude/skills/a'', reason = None\<rparr>,
                 \<lparr>skill = ''b'', agent = ''claude-code'', source = ''/p/.agents/skills/b'',
                   target = ''/p/.claude/skills/b'', reason = None\<rparr>],
      skipped = [\<lparr>skill = ''c'', agent = ''claude-code'', source = ''/p/.agents/skills/c'',
                   target = ''/p/.claude/skills/c'',
                   reason = Some ''real directory exists, skipping''\<rparr>],
      failed = []\<rparr>"

text \<open>A project in which \<^verbatim>\<open>.claude\<close> is a regular file.\<close>

definition blocked_fs :: node where
  "blocked_fs = Dir True [(''p'', Dir True
     [(''.agents'', Dir True [(''skills'', Dir True [(''a'', Dir True [])])]),
      (''.claude'', File ''not a directory'')])]"



text \<open>
  Two agents whose mirror roots are nested: the second mirror root is the link
  path of item \<open>a\<close> for the first agent, and holds a real directory.
\<close>

definition nested_options :: SyncOptions where
  "nested_options = \<lparr>agents = [(''outer'', \<lparr>skillsDir = ''m''\<rparr>),
                               (''inner'', \<lparr>skillsDir = ''m/a''\<rparr>)],
                     filterAgents = None, dryRun = False\<rparr>"

definition nested_fs :: node where
  "nested_fs = Dir True [(''p'', Dir True
     [(''.agents'', Dir True [(''skills'', Dir True [(''a'', Dir True [])])]),
      (''m'', Dir True [(''a'', Dir True [(''SKILL.md'', File ''custom content'')])])])]"

definition nested_synced_fs :: node where
  "nested_synced_fs = Dir True [(''p'', Dir True
     [(''.agents'', Dir True [(''skills'', Dir True [(''a'', Dir True [])])]),
      (''m'', Dir True [(''a'', Dir True [(''SKILL.md'', File ''custom content''),
                                          (''a'', Link ''../../.agents/skills/a'')])])])]"

text \<open>
  A preview for two agents. The mirror root of the first holds a link of the
  engine's, a link that points elsewhere and a real directory; the mirror root
  of the second does not exist. The reports of \<open>syncSkills\<close> and of
  \<open>cleanSkills\<close> on that state.
\<close>

definition preview_options :: SyncOptions where
  "preview_options = \<lparr>agents = [(''claude-code'', \<lparr>skillsDir = ''.claude/skills''\<rparr>),
                                (''opencode'', \<lparr>skillsDir = ''.opencode/skills''\<rparr>)],
                      filterAgents = None, dryRun = True\<rparr>"

definition mixed_fs :: node where
  "mixed_fs = Dir True [(''p'', Dir True
     [(''.agents'', Dir True [(''skills'', Dir True [(''a'', Dir True []), (''b'', Dir True [])])]),
      (''.claude'', Dir True [(''skills'', Dir True
        [(''a'', Link ''../../.agents/skills/a''),
         (''old'', Link ''../../elsewhere/old''),
         (''c'', Dir True [(''SKILL.md'', File ''custom content'')])])])])]"

definition mixed_sync_report :: SyncResult where
  "mixed_sync_report =
     \<lparr>created = [\<lparr>skill = ''b'', agent = ''claude-code'', source = ''/p/.agents/skills/b'',
                   target = ''/p/.claude/skills/b'', reason = None\<rparr>,
                 \<lparr>skill = ''a'', agent = ''opencode'', source = ''/p/.agents/skills/a'',
                   target = ''/p/.opencode/skills/a'', reason = None\<rparr>,
                 \<lparr>skill = ''b'', agent = ''opencode'', source = ''/p/.agents/skills/b'',
                   target = ''/p/.opencode/skills/b'', reason = None\<rparr>],
      skipped = [\<lparr>skill = ''a'', agent = ''claude-code'', source = ''/p/.agents/skills/a'',
                   target = ''/p/.claude/skills/a'', reason = Some ''already linked''\<rparr>],
      failed = []\<rparr>"

definition mixed_clean_report :: SyncResult where
  "mixed_clean_report =
     \<lparr>created = [\<lparr>skill = ''a'', agent = ''claude-code'', source = ''/p/.agents/skills/a'',
                   target = ''/p/.claude/skills/a'', reason = None\<rparr>],
      skipped = [\<lparr>skill = ''c'', agent = ''claude-code'', source = ''/p/.agents/skills/c'',
                   target = ''/p/.claude/skills/c'',
                   reason = Some ''not a symlink, preserving''\<rparr>,
                 \<lparr>skill = ''old'', agent = ''claude-code'', source = ''/p/.agents/skills/old'',
                   target = ''/p/.claude/skills/old'',
                   reason = Some ''symlink points elsewhere, preserving''\<rparr>],
      failed = []\<rparr>"

text \<open>
  Two agents that share one mirror root; a project with one skill and no
  mirror root, the same project with the link made, and with the link removed
  again.
\<close>

definition shared_options :: SyncOptions where
  "shared_options = \<lparr>agents = [(''claude-code'', \<lparr>skillsDir = ''.claude/skills''\<rparr>),
                               (''claude-fork'', \<lparr>skillsDir = ''.claude/skills''\<rparr>)],
                     filterAgents = None, dryRun = False\<rparr>"

definition single_fs :: node where
  "single_fs = Dir True [(''p'', Dir True
     [(''.agents'', Dir True [(''skills'', Dir True [(''a'', Dir True [])])])])]"

definition single_synced_fs :: node where
  "single_synced_fs = Dir True [(''p'', Dir True
     [(''.agents'', Dir True [(''skills'', Dir True [(''a'', Dir True [])])]),
      (''.claude'', Dir True [(''skills'', Dir True [(''a'', Link ''../../.agents/skills/a'')])])])]"

definition single_cleaned_fs :: node where
  "single_cleaned_fs = Dir True [(''p'', Dir True
     [(''.agents'', Dir True [(''skills'', Dir True [(''a'', Dir True [])])]),
      (''.claude'', Dir True [(''skills'', Dir True [])])])]"

text \<open>
  The two agents of the registry, and a project in which \<^verbatim>\<open>.opencode\<close> is a
  symbolic link to the real directory that stands at the link path of item
  \<open>a\<close> for \<^verbatim>\<open>claude-code\<close>; the state after \<open>syncSkills\<close>.
\<close>

definition registry_options :: SyncOptions where
  "registry_options = \<lparr>agents = [(''opencode'', \<lparr>skillsDir = ''.opencode/skills''\<rparr>),
                                 (''claude-code'', \<lparr>skillsDir = ''.claude/skills''\<rparr>)],
                       filterAgents = None, dryRun = False\<rparr>"

definition aliased_fs :: node where
  "aliased_fs = Dir True [(''p'', Dir True
     [(''.agents'', Dir True [(''skills'', Dir True [(''a'', Dir True [])])]),
      (''.claude'', Dir True [(''skills'', Dir True
         [(''a'', Dir True [(''SKILL.md'', File ''custom content'')])])]),
      (''.opencode'', Link ''.claude/skills/a'')])]"

definition aliased_synced_fs :: node where
  "aliased_synced_fs = Dir True [(''p'', Dir True
     [(''.agents'', Dir True [(''skills'', Dir True [(''a'', Dir True [])])]),
      (''.claude'', Dir True [(''skills'', Dir True
         [(''a'', Dir True [(''SKILL.md'', File ''custom content''),
                            (''skills'', Dir True [(''a'', Link ''../../.agents/skills/a'')])])])]),
      (''.opencode'', Link ''.claude/skills/a'')])]"

text \<open>
  The report of \<open>syncSkills\<close> on the state with the differently spelled link,
  and the state it leaves.
\<close>

definition stale_b_report :: SyncResult where
  "stale_b_report =
     \<lparr>created = [\<lparr>skill = ''b'', agent = ''claude-code'', source = ''/p/.agents/skills/b'',
                   target = ''/p/.claude/skills/b'', reason = None\<rparr>],
      skipped = [\<lparr>skill = ''a'', agent = ''claude-code'', source = ''/p/.agents/skills/a'',
                   target = ''/p/.claude/skills/a'', reason = Some ''already linked''\<rparr>],
      failed = []\<rparr>"

definition demo_synced_b_fs :: node where
  "demo_synced_b_fs = Dir True [(''p'', Dir True
     [(''.agents'', Dir True [(''skills'', Dir True [(''a'', Dir True []), (''b'', Dir True [])])]),
      (''.claude'', Dir True [(''skills'', Dir True
        [(''a'', Link ''../../.agents/skills/a''),
         (''b'', Link ''../../.agents/skills/b'')])])])]"

text \<open>The report of \<open>cleanSkills\<close> on a project whose one link is the engine's.\<close>

definition single_clean_report :: SyncResult where
  "single_clean_report =
     \<lparr>created = [\<lparr>skill = ''a'', agent = ''claude-code'', source = ''/p/.agents/skills/a'',
                   target = ''/p/.claude/skills/a'', reason = None\<rparr>],
      skipped = [], failed = []\<rparr>"

text \<open>
  The state with the link of the engine's, the link that points elsewhere and
  the real directory, after \<open>syncSkills\<close> and after \<open>cleanSkills\<close>.
\<close>

definition mixed_synced_fs :: node where
  "mixed_synced_fs = Dir True [(''p'', Dir True
     [(''.agents'', Dir True [(''skills'', Dir True [(''a'', Dir True []), (''b'', Dir True [])])]),
      (''.claude'', Dir True [(''skills'', Dir True
        [(''a'', Link ''../../.agents/skills/a''),
         (''old'', Link ''../../elsewhere/old''),
         (''c'', Dir True [(''SKILL.md'', File ''custom content'')]),
         (''b'', Link ''../../.agents/skills/b'')])]),
      (''.opencode'', Dir True [(''skills'', Dir True
        [(''a'', Link ''../../.agents/skills/a''),
         (''b'', Link ''../../.agents/skills/b'')])])])]"

definition mixed_cleaned_fs :: node where
  "mixed_cleaned_fs = Dir True [(''p'', Dir True
     [(''.agents'', Dir True [(''skills'', Dir True [(''a'', Dir True []), (''b'', Dir True [])])]),
      (''.claude'', Dir True [(''skills'', Dir True
        [(''old'', Link ''../../elsewhere/old''),
         (''c'', Dir True [(''SKILL.md'', File ''custom content'')])])])])]"
section \<open>Properties of the file system\<close>

lemma get_snoc:
  "get fs (l @ [c]) = (case get fs l of Some (Dir ok kids) \<Rightarrow> map_of kids c | _ \<Rightarrow> None)"
proof (induction l arbitrary: fs)
  case Nil
  show ?case by (cases fs) (auto split: option.splits)
next
  case (Cons a l)
  show ?case
  proof (cases fs)
    case (Dir ok kids)
    then show ?thesis using Cons by (auto split: option.splits)
  qed auto
qed

lemma walk_follow:
  "follow_agrees fs (walk fs fuel False cur cs) (walk fs fuel True cur cs)"
proof (induction fs fuel "False" cur cs rule: walk.induct)
  case (1 fs fuel cur)
  then show ?case by (simp add: follow_agrees_def split: option.splits node.splits)
next
  case (2 fs fuel cur c cs)
  show ?case
  proof (cases "get fs cur")
    case None
    then show ?thesis by (simp add: follow_agrees_def)
  next
    case (Some n)
    show ?thesis
    proof (cases n)
      case (Dir ok kids)
      note d = Some Dir
      show ?thesis
      proof (cases "ok \<and> c \<noteq> ''.'' \<and> c \<noteq> ''..''")
        case False
        then show ?thesis using 2(1,2) d by (auto simp: follow_agrees_def)
      next
        case True
        note plain = True
        show ?thesis
        proof (cases "map_of kids c")
          case None
          then show ?thesis using d plain by (simp add: follow_agrees_def get_snoc)
        next
          case (Some m)
          show ?thesis
          proof (cases m)
            case (File b)
            then show ?thesis using d plain Some by (simp add: follow_agrees_def get_snoc)
          next
            case (Dir ok' kids')
            then show ?thesis using d plain Some 2(4)[of n ok kids m ok' kids'] by simp
          next
            case (Link dest)
            show ?thesis
            proof (cases "cs = []")
              case True
              then show ?thesis using d plain Some Link
                by (simp add: follow_agrees_def get_snoc)
            next
              case False
              note ne = False
              show ?thesis
              proof (cases "fuel = 0")
                case True
                then show ?thesis using d plain Some Link ne
                  by (simp add: follow_agrees_def)
              next
                case False
                then show ?thesis
                  using d plain Some Link ne 2(3)[of n ok kids m dest] by simp
              qed
            qed
          qed
        qed
      qed
    qed (use Some in \<open>simp_all add: follow_agrees_def\<close>)
  qed
qed

lemma path_walk_follow:
  "follow_agrees fs (path_walk fs False p) (path_walk fs True p)"
  using walk_follow[of fs MAXSYMLINKS "[]" "comps p"]
  by (simp add: path_walk_def follow_agrees_def)

lemma locate_dir_wanted: "dir_wanted p \<Longrightarrow> locate fs follow p = locate fs True p"
  by (simp add: locate_def)

lemma lstat_fails_not_exists:
  "lstatSync fs p = Inl e \<Longrightarrow> \<not> existsSync fs p"
proof (cases "dir_wanted p")
  case True
  assume "lstatSync fs p = Inl e"
  then show ?thesis
    using locate_dir_wanted[OF True, of fs False]
    by (simp add: lstatSync_def existsSync_def statSync_def)
next
  case False
  assume "lstatSync fs p = Inl e"
  then show ?thesis
    using path_walk_follow[of fs p] False
    by (auto simp: lstatSync_def existsSync_def statSync_def locate_def follow_agrees_def
           split: sum.splits option.splits node.splits)
qed

lemma lstat_real_stat:
  "lstatSync fs p = Inr n \<Longrightarrow> \<not> isSymbolicLink n \<Longrightarrow> statSync fs p = Inr n"
proof (cases "dir_wanted p")
  case True
  assume "lstatSync fs p = Inr n"
  then show ?thesis
    using locate_dir_wanted[OF True, of fs False]
    by (simp add: lstatSync_def statSync_def)
next
  case False
  assume "lstatSync fs p = Inr n" and "\<not> isSymbolicLink n"
  then show ?thesis
    using path_walk_follow[of fs p] False
    by (auto simp: lstatSync_def statSync_def locate_def follow_agrees_def isSymbolicLink_def
           split: sum.splits option.splits node.splits)
qed

lemma lstat_long: "PATH_MAX \<le> length p \<Longrightarrow> \<exists>e. lstatSync fs p = Inl e"
  by (simp add: lstatSync_def locate_def path_walk_def)


section \<open>Properties of path strings\<close>

lemma split_sep_not_Nil [simp]: "split_sep s \<noteq> []"
  by (induction s) (auto split: list.splits)

lemma split_sep_no_sep: "sep \<notin> set s \<Longrightarrow> split_sep s = [s]"
  by (induction s) (auto split: list.splits)

lemma split_sep_append:
  "split_sep (a @ sep # b) = split_sep a @ split_sep b"
  by (induction a) (auto split: list.splits)

lemma split_sep_sep_free: "x \<in> set (split_sep s) \<Longrightarrow> sep \<notin> set x"
proof (induction s arbitrary: x)
  case Nil
  then show ?case by simp
next
  case (Cons c s)
  then show ?case
    by (cases "split_sep s") (auto split: if_splits)
qed

lemma split_join_sep:
  "xs \<noteq> [] \<Longrightarrow> \<forall>x \<in> set xs. sep \<notin> set x \<Longrightarrow> split_sep (join_sep xs) = xs"
proof (induction xs rule: join_sep.induct)
  case 1
  then show ?case by simp
next
  case (2 x)
  then show ?case by (simp add: split_sep_no_sep)
next
  case (3 x y ys)
  then show ?case by (simp add: split_sep_append split_sep_no_sep)
qed

lemma comps_sep_free: "x \<in> set (comps p) \<Longrightarrow> x \<noteq> [] \<and> sep \<notin> set x"
  by (auto simp: comps_def dest: split_sep_sep_free)

lemma comps_join_sep:
  "\<forall>x \<in> set xs. x \<noteq> [] \<and> sep \<notin> set x \<Longrightarrow> comps (join_sep xs) = xs"
proof (cases "xs = []")
  case True
  then show ?thesis by (simp add: comps_def)
next
  case False
  assume "\<forall>x \<in> set xs. x \<noteq> [] \<and> sep \<notin> set x"
  then show ?thesis using False by (simp add: comps_def split_join_sep filter_id_conv)
qed

lemma comps_leading_sep: "comps (sep # s) = comps s"
  by (simp add: comps_def)

lemma norm_step_empty [simp]: "norm_step a res [] = res"
  by (simp add: norm_step_def)

lemma norm_step_plain: "x \<noteq> [] \<Longrightarrow> x \<noteq> ''.'' \<Longrightarrow> x \<noteq> ''..'' \<Longrightarrow> norm_step a res x = res @ [x]"
  unfolding norm_step_def by (simp only: if_False simp_thms)

lemma foldl_norm_step_plain:
  "\<forall>x \<in> set xs. x \<noteq> ''.'' \<and> x \<noteq> ''..'' \<Longrightarrow>
     foldl (norm_step a) acc xs = acc @ filter (\<lambda>s. s \<noteq> []) xs"
proof (induction xs arbitrary: acc)
  case Nil
  then show ?case by simp
next
  case (Cons x xs)
  show ?case
  proof (cases "x = []")
    case True
    then show ?thesis using Cons by simp
  next
    case False
    then have "norm_step a acc x = acc @ [x]"
      using Cons.prems by (intro norm_step_plain) auto
    then show ?thesis using Cons False by simp
  qed
qed

lemma foldl_norm_step_comps:
  "foldl (norm_step a) acc (filter (\<lambda>s. s \<noteq> []) xs) = foldl (norm_step a) acc xs"
  by (induction xs arbitrary: acc) simp_all

lemma normalizeString_comps: "normalizeString p a = foldl (norm_step a) [] (comps p)"
  by (simp add: normalizeString_def comps_def foldl_norm_step_comps)

lemma resolve_comps: "comps p = comps q \<Longrightarrow> resolve p = resolve q"
  by (simp add: resolve_def normalizeString_comps)

lemma strip_common_same: "strip_common xs xs = ([], [])"
  by (induction xs) auto

lemma relative_alt:
  "relative from to =
     (case strip_common (resolve from) (resolve to) of
        (up, down) \<Rightarrow> join_sep (replicate (length up) ''..'' @ down))"
  by (simp add: relative_def strip_common_same)

lemma relative_comps: "comps p = comps q \<Longrightarrow> relative p t = relative q t"
  using resolve_comps[of p q] by (simp add: relative_alt)

lemma join_sep_last_nonempty: "xs \<noteq> [] \<Longrightarrow> last xs \<noteq> [] \<Longrightarrow> join_sep xs \<noteq> []"
  by (induction xs rule: join_sep.induct) auto

lemma valid_name_nonempty: "valid_name sk \<Longrightarrow> sk \<noteq> []"
  by (simp add: valid_name_def)

lemma valid_name_sep_free: "valid_name sk \<Longrightarrow> sep \<notin> set sk"
  by (simp add: valid_name_def)

lemma norm_step_name: "valid_name sk \<Longrightarrow> norm_step a res sk = res @ [sk]"
  unfolding valid_name_def by (intro norm_step_plain) blast+

lemma valid_name_last: "valid_name sk \<Longrightarrow> last sk \<noteq> sep"
  unfolding valid_name_def by (metis last_in_set)

lemma valid_name_not_abs: "valid_name sk \<Longrightarrow> \<not> isAbsolute sk"
  using valid_name_nonempty[of sk] valid_name_sep_free[of sk]
  by (cases sk) (auto simp: isAbsolute_def)

lemma normalizeString_name: "valid_name sk \<Longrightarrow> normalizeString sk a = [sk]"
  by (simp add: normalizeString_def split_sep_no_sep norm_step_name valid_name_sep_free)

lemma normalize_name:
  assumes "valid_name sk"
  shows "normalize sk = sk"
  unfolding normalize_def Let_def
  using normalizeString_name[OF assms] valid_name_last[OF assms] valid_name_not_abs[OF assms]
    valid_name_nonempty[OF assms]
  by simp

lemma comps_name: "valid_name sk \<Longrightarrow> comps sk = [sk]"
  by (simp add: comps_def split_sep_no_sep valid_name_sep_free valid_name_nonempty)

lemma comps_join_name:
  assumes "valid_name sk" and "plain_path d"
  shows "comps (join [d, sk]) = comps d @ [sk]"
proof -
  note ne = valid_name_nonempty[OF assms(1)]
  note sf = valid_name_sep_free[OF assms(1)]
  have segs_free: "\<forall>x \<in> set (comps d @ [sk]). x \<noteq> [] \<and> sep \<notin> set x"
    using ne sf comps_sep_free by auto
  show ?thesis
  proof (cases "d = []")
    case True
    then show ?thesis using ne normalize_name[OF assms(1)] comps_name[OF assms(1)]
      by (simp add: join_def comps_def)
  next
    case False
    let ?p = "d @ sep # sk"
    have j: "join [d, sk] = normalize ?p"
      using False ne by (simp add: join_def)
    have ns: "normalizeString ?p a = comps d @ [sk]" for a
    proof -
      have "normalizeString ?p a = foldl (norm_step a) [] (comps d @ [sk])"
        using ne sf by (simp add: normalizeString_comps comps_def split_sep_append split_sep_no_sep)
      also have "\<dots> = norm_step a (foldl (norm_step a) [] (comps d)) sk"
        by simp
      also have "foldl (norm_step a) [] (comps d) = [] @ filter (\<lambda>s. s \<noteq> []) (comps d)"
        using assms(2) unfolding plain_path_def by (intro foldl_norm_step_plain)
      also have "filter (\<lambda>s. s \<noteq> []) (comps d) = comps d"
        by (simp add: comps_def)
      finally show ?thesis by (simp add: norm_step_name[OF assms(1)])
    qed
    have body: "join_sep (comps d @ [sk]) \<noteq> []"
      using ne by (simp add: join_sep_last_nonempty)
    have notrail: "last ?p \<noteq> sep"
      using ne valid_name_last[OF assms(1)] by simp
    have "normalize ?p = (if isAbsolute ?p then [sep] else []) @ join_sep (comps d @ [sk])"
      unfolding normalize_def Let_def ns using body notrail by (simp add: sep_def)
    then have "comps (normalize ?p) = comps (join_sep (comps d @ [sk]))"
      by (cases "isAbsolute ?p") (simp_all add: comps_leading_sep)
    then show ?thesis using j comps_join_sep[OF segs_free] by simp
  qed
qed

lemma last_join_sep: "xs \<noteq> [] \<Longrightarrow> last xs \<noteq> [] \<Longrightarrow> last (join_sep xs) = last (last xs)"
proof (induction xs rule: join_sep.induct)
  case 1
  then show ?case by simp
next
  case (2 x)
  then show ?case by simp
next
  case (3 x y ys)
  then have "join_sep (y # ys) \<noteq> []" by (intro join_sep_last_nonempty) simp_all
  then show ?case using 3 by simp
qed

lemma join_name_file:
  assumes "valid_name sk" and "plain_path d"
  shows "join [d, sk] \<noteq> [] \<and> \<not> dir_wanted (join [d, sk])"
proof -
  note ne = valid_name_nonempty[OF assms(1)]
  note sf = valid_name_sep_free[OF assms(1)]
  show ?thesis
  proof (cases "d = []")
    case True
    then have "join [d, sk] = sk" using ne normalize_name[OF assms(1)] by (simp add: join_def)
    then show ?thesis using ne valid_name_last[OF assms(1)] by (simp add: dir_wanted_def)
  next
    case False
    let ?p = "d @ sep # sk"
    have j: "join [d, sk] = normalize ?p"
      using False ne by (simp add: join_def)
    have ns: "normalizeString ?p a = comps d @ [sk]" for a
    proof -
      have "normalizeString ?p a = foldl (norm_step a) [] (comps d @ [sk])"
        using ne sf by (simp add: normalizeString_comps comps_def split_sep_append split_sep_no_sep)
      also have "\<dots> = norm_step a (foldl (norm_step a) [] (comps d)) sk"
        by simp
      also have "foldl (norm_step a) [] (comps d) = [] @ filter (\<lambda>s. s \<noteq> []) (comps d)"
        using assms(2) unfolding plain_path_def by (intro foldl_norm_step_plain)
      also have "filter (\<lambda>s. s \<noteq> []) (comps d) = comps d"
        by (simp add: comps_def)
      finally show ?thesis by (simp add: norm_step_name[OF assms(1)])
    qed
    have body: "join_sep (comps d @ [sk]) \<noteq> []"
      using ne by (simp add: join_sep_last_nonempty)
    have notrail: "last ?p \<noteq> sep"
      using ne valid_name_last[OF assms(1)] by simp
    have n: "normalize ?p = (if isAbsolute ?p then [sep] else []) @ join_sep (comps d @ [sk])"
      unfolding normalize_def Let_def ns using body notrail by (simp add: sep_def)
    have "last (join_sep (comps d @ [sk])) = last sk"
      using last_join_sep[of "comps d @ [sk]"] ne by simp
    then have "last (normalize ?p) = last sk" using n body by simp
    moreover have "normalize ?p \<noteq> []" using n body by simp
    ultimately show ?thesis using j valid_name_last[OF assms(1)] by (simp add: dir_wanted_def)
  qed
qed


section \<open>Lookup and update in the tree\<close>

lemma get_leafy_below: "leafy (Some m) \<Longrightarrow> r \<noteq> [] \<Longrightarrow> get m r = None"
  by (cases m; cases r) (auto simp: leafy_def)

lemma get_leaf_below: "is_leaf (Some m) \<Longrightarrow> r \<noteq> [] \<Longrightarrow> get m r = None"
  by (cases m; cases r) (auto simp: is_leaf_def)

lemma get_append: "get fs (l @ r) = (case get fs l of None \<Rightarrow> None | Some n \<Rightarrow> get n r)"
proof (induction l arbitrary: fs)
  case Nil
  show ?case by simp
next
  case (Cons c l)
  show ?case by (cases fs) (auto simp: Cons split: option.splits)
qed

lemma view_put:
  assumes "leafy v" and "is_leaf (get fs l)"
  shows "view (put l v fs) l' = view fs l' \<or> (l' = l \<and> view (put l v fs) l' = map_option kind_of v)"
  using assms
proof (induction l arbitrary: fs l')
  case Nil
  show ?case
  proof (cases v)
    case None
    then show ?thesis by simp
  next
    case (Some m)
    show ?thesis
    proof (cases "l' = []")
      case True
      then show ?thesis using Some by (simp add: view_def)
    next
      case False
      then show ?thesis
        using Some Nil get_leafy_below[of m l'] get_leaf_below[of fs l']
        by (simp add: view_def)
    qed
  qed
next
  case (Cons c cs)
  show ?case
  proof (cases fs)
    case (Dir ok kids)
    show ?thesis
    proof (cases l')
      case Nil
      then show ?thesis using Dir by (simp add: view_def split: option.splits)
    next
      case (Cons c' r)
      note l' = Cons
      show ?thesis
      proof (cases "c' = c")
        case False
        then show ?thesis using Dir l'
          by (simp add: view_def update_conv' delete_conv' split: option.splits)
      next
        case True
        show ?thesis
        proof (cases "cs = []")
          case True
          note cs = True
          show ?thesis
          proof (cases "r = []")
            case True
            then show ?thesis using Dir l' cs \<open>c' = c\<close>
              by (simp add: view_def update_conv' delete_conv' split: option.splits)
          next
            case False
            have old: "get fs l' = None"
              using Dir l' \<open>c' = c\<close> Cons.prems(2) cs False get_leaf_below[of _ r]
              by (auto split: option.splits)
            have new: "get (put (c # cs) v fs) l' = None"
              using Dir l' \<open>c' = c\<close> Cons.prems(1) cs False get_leafy_below[of _ r]
              by (auto simp: update_conv' delete_conv' split: option.splits)
            show ?thesis using old new by (simp add: view_def)
          qed
        next
          case False
          show ?thesis
          proof (cases "map_of kids c")
            case None
            then show ?thesis using Dir False by simp
          next
            case (Some m)
            have "is_leaf (get m cs)" using Cons.prems(2) Dir Some by simp
            from Cons.IH[OF Cons.prems(1) this, of r]
            show ?thesis using Dir l' \<open>c' = c\<close> False Some
              by (simp add: view_def update_conv')
          qed
        qed
      qed
    qed
  qed simp_all
qed

lemma get_put_frame:
  assumes "leafy v" and "is_leaf (get fs l)" and "\<not> prefix L l"
  shows "get (put l v fs) L = get fs L"
  using assms
proof (induction l arbitrary: fs L)
  case Nil
  then have "L \<noteq> []" by simp
  then show ?case using Nil get_leafy_below[of _ L] get_leaf_below[of fs L]
    by (cases v) auto
next
  case (Cons c cs)
  show ?case
  proof (cases fs)
    case (Dir ok kids)
    from Cons.prems(3) obtain c' r where L: "L = c' # r" by (cases L) auto
    show ?thesis
    proof (cases "c' = c")
      case False
      then show ?thesis using Dir L
        by (simp add: update_conv' delete_conv' split: option.splits)
    next
      case True
      show ?thesis
      proof (cases "cs = []")
        case True
        then have r: "r \<noteq> []" using Cons.prems(3) L \<open>c' = c\<close> by auto
        have old: "get fs L = None"
          using Dir L \<open>c' = c\<close> Cons.prems(2) True r get_leaf_below[of _ r]
          by (auto split: option.splits)
        have new: "get (put (c # cs) v fs) L = None"
          using Dir L \<open>c' = c\<close> Cons.prems(1) True r get_leafy_below[of _ r]
          by (auto simp: update_conv' delete_conv' split: option.splits)
        show ?thesis using old new by simp
      next
        case False
        show ?thesis
        proof (cases "map_of kids c")
          case None
          then show ?thesis using Dir False by simp
        next
          case (Some m)
          have 1: "is_leaf (get m cs)" using Cons.prems(2) Dir Some by simp
          have 2: "\<not> prefix r cs" using Cons.prems(3) L \<open>c' = c\<close> by simp
          from Cons.IH[OF Cons.prems(1) 1 2]
          show ?thesis using Dir L \<open>c' = c\<close> False Some
            by (simp add: update_conv')
        qed
      qed
    qed
  qed simp_all
qed

lemma get_put_at:
  assumes "get fs p = Some (Dir ok kids)"
  shows "get (put (p @ [c]) v fs) (p @ [c]) = v"
  using assms
proof (induction p arbitrary: fs)
  case Nil
  then show ?case by (cases v) (auto simp: update_conv' delete_conv')
next
  case (Cons a p)
  then show ?case
    by (cases fs) (auto simp: update_conv' split: option.splits)
qed


section \<open>Resolution along plain paths\<close>

lemma okdir_get: "okdir fs l \<longleftrightarrow> (\<exists>kids. get fs l = Some (Dir True kids))"
proof (cases "get fs l")
  case None
  then show ?thesis by (simp add: okdir_def view_def)
next
  case (Some n)
  then show ?thesis by (cases n) (auto simp: okdir_def view_def)
qed

lemma dotless_Cons: "dotless (c # cs) \<longleftrightarrow> c \<noteq> ''.'' \<and> c \<noteq> ''..'' \<and> dotless cs"
  unfolding dotless_def by (simp only: list.set ball_simps conj_assoc)

lemma dotless_append: "dotless (xs @ ys) \<longleftrightarrow> dotless xs \<and> dotless ys"
  unfolding dotless_def by (simp only: set_append ball_Un)

lemma dotless_Nil: "dotless []"
  by (simp add: dotless_def)

lemma walk_step_dir:
  assumes "get fs cur = Some (Dir True kids)" and "c \<noteq> ''.''" and "c \<noteq> ''..''"
      and "map_of kids c = Some (Dir ok' kids')"
  shows "walk fs fuel follow cur (c # cs) = walk fs fuel follow (cur @ [c]) cs"
  using assms by (simp only: walk.simps option.case node.case if_False not_True_eq_False simp_thms)

lemma walk_dirs:
  assumes "dotless cs" and "\<forall>p. prefix p cs \<longrightarrow> okdir fs (cur @ p)"
  shows "walk fs fuel follow cur (cs @ rest) = walk fs fuel follow (cur @ cs) rest"
  using assms
proof (induction cs arbitrary: cur)
  case Nil
  show ?case by simp
next
  case (Cons c cs)
  from Cons.prems(2)[rule_format, of "[]"] obtain kids where cur: "get fs cur = Some (Dir True kids)"
    by (auto simp: okdir_get)
  from Cons.prems(2)[rule_format, of "[c]"] obtain kids' where
    ch: "get fs (cur @ [c]) = Some (Dir True kids')"
    by (auto simp: okdir_get)
  then have m: "map_of kids c = Some (Dir True kids')"
    using cur by (simp add: get_snoc)
  have c: "c \<noteq> ''.''" "c \<noteq> ''..''" and dl: "dotless cs"
    using Cons.prems(1) unfolding dotless_Cons by blast+
  have "\<forall>p. prefix p cs \<longrightarrow> okdir fs ((cur @ [c]) @ p)"
    using Cons.prems(2) by (auto simp: prefix_def)
  from Cons.IH[OF dl this]
  show ?case using walk_step_dir[OF cur c m] by simp
qed

lemma walk_last:
  assumes "okdir fs cur" and "c \<noteq> ''.''" and "c \<noteq> ''..''"
  shows "walk fs fuel False cur [c] =
           (if get fs (cur @ [c]) = None \<and> NAME_MAX < length c then Inl ENAMETOOLONG
            else Inr (cur @ [c]))"
proof -
  from assms(1) obtain kids where cur: "get fs cur = Some (Dir True kids)"
    by (auto simp: okdir_get)
  have g: "get fs (cur @ [c]) = map_of kids c" using cur by (simp add: get_snoc)
  show ?thesis
  proof (cases "map_of kids c")
    case None
    then show ?thesis using cur assms(2,3) g
      by (simp only: walk.simps option.case node.case if_False if_True not_True_eq_False simp_thms
            split: if_splits)
  next
    case (Some m)
    then show ?thesis using cur assms(2,3) g
      by (cases m)
         (simp_all only: walk.simps option.case node.case if_False if_True not_True_eq_False
            not_False_eq_True simp_thms option.distinct)
  qed
qed

lemma walk_last_follow:
  assumes "okdir fs cur" and "c \<noteq> ''.''" and "c \<noteq> ''..''"
      and "case view fs (cur @ [c]) of Some (KLink d) \<Rightarrow> False | _ \<Rightarrow> True"
  shows "walk fs fuel True cur [c] =
           (if get fs (cur @ [c]) = None \<and> NAME_MAX < length c then Inl ENAMETOOLONG
            else Inr (cur @ [c]))"
proof -
  from assms(1) obtain kids where cur: "get fs cur = Some (Dir True kids)"
    by (auto simp: okdir_get)
  have g: "get fs (cur @ [c]) = map_of kids c" using cur by (simp add: get_snoc)
  show ?thesis
  proof (cases "map_of kids c")
    case None
    then show ?thesis using cur assms(2,3) g
      by (simp only: walk.simps option.case node.case if_False if_True not_True_eq_False simp_thms
            split: if_splits)
  next
    case (Some m)
    then have "get fs (cur @ [c]) = Some m" using cur by (simp add: get_snoc)
    then have "\<not> (\<exists>d. m = Link d)" using assms(4) by (auto simp: view_def)
    then show ?thesis using cur assms(2,3) Some g
      by (cases m)
         (simp_all only: walk.simps option.case node.case if_False if_True not_True_eq_False
            not_False_eq_True simp_thms option.distinct, simp_all)
  qed
qed

lemma walk_missing:
  assumes "dotless cs" and "okdir fs cur"
      and "\<forall>p. prefix p cs \<longrightarrow> passable fs (cur @ p)"
      and "get fs (cur @ cs) = None" and "rest \<noteq> []"
  shows "\<exists>e. walk fs fuel follow cur (cs @ rest) = Inl e"
  using assms
proof (induction cs arbitrary: cur)
  case Nil
  then show ?case by (simp add: okdir_get)
next
  case (Cons c cs)
  from Cons.prems(2) obtain kids where cur: "get fs cur = Some (Dir True kids)"
    by (auto simp: okdir_get)
  have c: "c \<noteq> ''.''" "c \<noteq> ''..''" and dl: "dotless cs"
    using Cons.prems(1) unfolding dotless_Cons by blast+
  show ?case
  proof (cases "map_of kids c")
    case None
    have "cs @ rest \<noteq> []" using Cons.prems(5) by simp
    then have "walk fs fuel follow cur (c # cs @ rest) =
                 (if NAME_MAX < length c then Inl ENAMETOOLONG else Inl ENOENT)"
      using cur c None
      by (simp only: walk.simps option.case node.case if_False if_True
            not_True_eq_False simp_thms)
    then show ?thesis by (cases "NAME_MAX < length c") simp_all
  next
    case (Some m)
    then have g: "get fs (cur @ [c]) = Some m" using cur by (simp add: get_snoc)
    from Cons.prems(3)[rule_format, of "[c]"] have "passable fs (cur @ [c])" by simp
    then obtain kids' where m: "m = Dir True kids'"
      using g by (cases m) (auto simp: passable_def view_def)
    have ok: "okdir fs (cur @ [c])" using g m by (simp add: okdir_get)
    have pass: "\<forall>p. prefix p cs \<longrightarrow> passable fs ((cur @ [c]) @ p)"
      using Cons.prems(3) by (auto simp: prefix_def)
    have none: "get fs ((cur @ [c]) @ cs) = None" using Cons.prems(4) by simp
    from Cons.IH[OF dl ok pass none Cons.prems(5)]
    show ?thesis using walk_step_dir[OF cur c Some[unfolded m]] by simp
  qed
qed

lemma get_prefix_dir:
  assumes "get fs (p @ c # r) = Some n"
  shows "\<exists>ok kids. get fs p = Some (Dir ok kids)"
proof (cases "get fs p")
  case None
  then show ?thesis using assms by (simp add: get_append)
next
  case (Some m)
  then show ?thesis using assms by (cases m) (auto simp: get_append)
qed

lemma plain_prefix: "plain fs cs \<Longrightarrow> prefix p cs \<Longrightarrow> passable fs p"
  by (simp add: plain_def in_set_prefixes)

lemma plain_okdir_prefixes:
  assumes "plain fs cs" and "okdir fs cs" and "prefix p cs"
  shows "okdir fs p"
proof (cases "p = cs")
  case True
  then show ?thesis using assms by simp
next
  case False
  then obtain c r where cs: "cs = p @ c # r"
    using assms(3) by (cases "drop (length p) cs") (auto simp: prefix_def)
  from assms(2) obtain kids where "get fs (p @ c # r) = Some (Dir True kids)"
    unfolding cs by (auto simp: okdir_get)
  from get_prefix_dir[OF this] obtain ok kids' where g: "get fs p = Some (Dir ok kids')" by blast
  have "passable fs p" using assms(1,3) by (rule plain_prefix)
  then show ?thesis using g by (simp add: passable_def view_def okdir_def)
qed

lemma plain_root: "plain fs cs \<Longrightarrow> okdir fs []"
  using plain_prefix[of fs cs "[]"]
  by (cases fs) (auto simp: passable_def view_def okdir_def)

lemma plain_cases: "plain fs cs \<Longrightarrow> okdir fs cs \<or> get fs cs = None"
proof -
  assume "plain fs cs"
  then have "passable fs cs" by (simp add: plain_prefix)
  then show ?thesis
    by (cases "get fs cs"; cases "the (get fs cs)") (auto simp: passable_def view_def okdir_def)
qed

lemma locate_plain:
  assumes "plain fs cs" and "dotless cs" and "c \<noteq> ''.''" and "c \<noteq> ''..''" and "okdir fs cs"
  shows "walk fs fuel False [] (cs @ [c]) =
           (if get fs (cs @ [c]) = None \<and> NAME_MAX < length c then Inl ENAMETOOLONG
            else Inr (cs @ [c]))"
proof -
  have "\<forall>p. prefix p cs \<longrightarrow> okdir fs ([] @ p)"
    using plain_okdir_prefixes[OF assms(1,5)] by simp
  from walk_dirs[OF assms(2) this, of fuel False "[c]"]
  show ?thesis using walk_last[OF assms(5,3,4), of fuel] by simp
qed

lemma locate_plain_missing:
  assumes "plain fs cs" and "dotless cs" and "\<not> okdir fs cs"
  shows "\<exists>e. walk fs fuel follow [] (cs @ [c]) = Inl e"
proof -
  have none: "get fs ([] @ cs) = None" using assms(3) plain_cases[OF assms(1)] by simp
  have pass: "\<forall>p. prefix p cs \<longrightarrow> passable fs ([] @ p)"
    using assms(1) by (simp add: plain_prefix)
  from walk_missing[OF assms(2) plain_root[OF assms(1)] pass none, of "[c]" fuel follow]
  show ?thesis by simp
qed

text \<open>
  What \<^verbatim>\<open>lstat\<close> answers for the link path of a skill under a plain mirror
  root: the entry that stands there, when there is one and the path is not
  too long.
\<close>

lemma path_walk_plain:
  assumes "plain fs (comps d)" and "plain_path d" and "valid_name sk"
      and "length (join [d, sk]) < PATH_MAX" and "okdir fs (comps d)"
  shows "path_walk fs False (join [d, sk]) =
           (if get fs (comps d @ [sk]) = None \<and> NAME_MAX < length sk then Inl ENAMETOOLONG
            else Inr (comps d @ [sk]))"
proof -
  have dl: "dotless (comps d)" using assms(2) by (simp add: plain_path_def dotless_def)
  have c: "sk \<noteq> ''.''" "sk \<noteq> ''..''" using assms(3) by (simp_all add: valid_name_def)
  have ne: "join [d, sk] \<noteq> []" using join_name_file[OF assms(3,2)] by simp
  show ?thesis
    unfolding path_walk_def comps_join_name[OF assms(3,2)]
    using ne assms(4) locate_plain[OF assms(1) dl c assms(5), of MAXSYMLINKS]
    by simp
qed

lemma lstat_plain_some:
  assumes "plain fs (comps d)" and "plain_path d" and "valid_name sk"
      and "length (join [d, sk]) < PATH_MAX" and "look fs (comps d) sk = Some n"
  shows "lstatSync fs (join [d, sk]) = Inr n"
proof -
  have ok: "okdir fs (comps d)" and g: "get fs (comps d @ [sk]) = Some n"
    using assms(5) by (auto simp: look_def split: if_splits)
  have nd: "\<not> dir_wanted (join [d, sk])" using join_name_file[OF assms(3,2)] by simp
  show ?thesis
    unfolding lstatSync_def locate_def
    using nd path_walk_plain[OF assms(1,2,3,4) ok] g by simp
qed

lemma lstat_plain_none:
  assumes "plain fs (comps d)" and "plain_path d" and "valid_name sk"
      and "look fs (comps d) sk = None"
  shows "\<exists>e. lstatSync fs (join [d, sk]) = Inl e"
proof (cases "length (join [d, sk]) < PATH_MAX")
  case False
  then show ?thesis using lstat_long[of "join [d, sk]" fs] by simp
next
  case True
  have dl: "dotless (comps d)" using assms(2) by (simp add: plain_path_def dotless_def)
  have nd: "\<not> dir_wanted (join [d, sk])" and ne: "join [d, sk] \<noteq> []"
    using join_name_file[OF assms(3,2)] by simp_all
  show ?thesis
  proof (cases "okdir fs (comps d)")
    case ok: True
    then have g: "get fs (comps d @ [sk]) = None" using assms(4) by (simp add: look_def)
    show ?thesis
      unfolding lstatSync_def locate_def
      using nd path_walk_plain[OF assms(1,2,3) True ok] g by simp
  next
    case False
    from locate_plain_missing[OF assms(1) dl False, of MAXSYMLINKS False sk]
    obtain e where "walk fs MAXSYMLINKS False [] (comps d @ [sk]) = Inl e" by blast
    then show ?thesis
      unfolding lstatSync_def locate_def path_walk_def comps_join_name[OF assms(3,2)]
      using nd ne True by simp
  qed
qed

lemma lstat_plain_inr:
  assumes "plain fs (comps d)" and "plain_path d" and "valid_name sk"
      and "lstatSync fs (join [d, sk]) = Inr n"
  shows "look fs (comps d) sk = Some n \<and> length (join [d, sk]) < PATH_MAX"
proof -
  have len: "length (join [d, sk]) < PATH_MAX"
    using lstat_long[of "join [d, sk]" fs] assms(4) by (cases "length (join [d, sk]) < PATH_MAX") auto
  show ?thesis
  proof (cases "look fs (comps d) sk")
    case None
    from lstat_plain_none[OF assms(1,2,3) None] assms(4) show ?thesis by auto
  next
    case (Some m)
    from lstat_plain_some[OF assms(1,2,3) len Some] assms(4) show ?thesis using Some len by simp
  qed
qed

lemma okdir_passable: "okdir fs l \<Longrightarrow> passable fs l"
  by (simp add: okdir_def passable_def)

lemma ensure_dir_new:
  assumes "dotless (done @ [c])" and "\<forall>p. prefix p done \<longrightarrow> okdir fs p"
      and "get fs (done @ [c]) = None"
  shows "ensure_dir fs (done @ [c]) =
           (if NAME_MAX < length c then Inl ENAMETOOLONG
            else Inr (put (done @ [c]) (Some (Dir True [])) fs))"
proof -
  have dl: "dotless done" and c: "c \<noteq> ''.''" "c \<noteq> ''..''"
    using assms(1) unfolding dotless_append dotless_Cons by blast+
  have pre: "\<forall>p. prefix p done \<longrightarrow> okdir fs ([] @ p)" using assms(2) by simp
  have ok: "okdir fs done" using assms(2) by simp
  have "walk fs MAXSYMLINKS False [] (done @ [c]) =
          (if NAME_MAX < length c then Inl ENAMETOOLONG else Inr (done @ [c]))"
    using walk_dirs[OF dl pre, of MAXSYMLINKS False "[c]"] walk_last[OF ok c, of MAXSYMLINKS]
      assms(3) by simp
  then show ?thesis using assms(3) by (simp add: ensure_dir_def)
qed

lemma ensure_dir_old:
  assumes "dotless (done @ [c])" and "\<forall>p. prefix p done \<longrightarrow> okdir fs p"
      and "okdir fs (done @ [c])"
  shows "ensure_dir fs (done @ [c]) = Inr fs"
proof -
  have dl: "dotless done" and c: "c \<noteq> ''.''" "c \<noteq> ''..''"
    using assms(1) unfolding dotless_append dotless_Cons by blast+
  have pre: "\<forall>p. prefix p done \<longrightarrow> okdir fs ([] @ p)" using assms(2) by simp
  have ok: "okdir fs done" using assms(2) by simp
  obtain kids where g: "get fs (done @ [c]) = Some (Dir True kids)"
    using assms(3) by (auto simp: okdir_get)
  have "walk fs MAXSYMLINKS False [] (done @ [c]) = Inr (done @ [c])"
    using walk_dirs[OF dl pre, of MAXSYMLINKS False "[c]"] walk_last[OF ok c, of MAXSYMLINKS] g
    by simp
  then show ?thesis using g by (simp add: ensure_dir_def)
qed

lemma mkdir_from_plain:
  assumes "dotless (done @ rest)"
      and "\<forall>p. prefix p done \<longrightarrow> okdir fs p"
      and "\<forall>p. prefix p rest \<longrightarrow> passable fs (done @ p)"
      and "mkdir_from fs done rest = Inr fs1"
  shows "(\<forall>p. prefix p (done @ rest) \<longrightarrow> okdir fs1 p)
           \<and> (\<forall>l. view fs1 l = view fs l
                  \<or> (prefix l (done @ rest) \<and> view fs l = None \<and> view fs1 l = Some (KDir True)))
           \<and> (\<forall>L. \<not> prefix L (done @ rest) \<longrightarrow> get fs1 L = get fs L)
           \<and> (okdir fs (done @ rest) \<longrightarrow> fs1 = fs)"
  using assms
proof (induction rest arbitrary: "done" fs)
  case Nil
  then show ?case by simp
next
  case (Cons c rest)
  have dl1: "dotless (done @ [c])" and dl2: "dotless ((done @ [c]) @ rest)"
    using Cons.prems(1) unfolding dotless_append dotless_Cons by (simp_all add: dotless_Nil)
  have pc: "passable fs (done @ [c])"
    using Cons.prems(3)[rule_format, of "[c]"] by simp
  show ?case
  proof (cases "get fs (done @ [c])")
    case None
    let ?fa = "put (done @ [c]) (Some (Dir True [])) fs"
    have short: "\<not> NAME_MAX < length c"
      using ensure_dir_new[OF dl1 Cons.prems(2) None] Cons.prems(4) by (auto split: if_splits)
    have e: "ensure_dir fs (done @ [c]) = Inr ?fa"
      using ensure_dir_new[OF dl1 Cons.prems(2) None] short by simp
    have leafy: "leafy (Some (Dir True []))" by (simp add: leafy_def)
    have leaf: "is_leaf (get fs (done @ [c]))" using None by (simp add: is_leaf_def)
    have vput: "view ?fa l = view fs l \<or> (l = done @ [c] \<and> view ?fa l = Some (KDir True))" for l
      using view_put[OF leafy leaf, of l] by auto
    obtain kids where "get fs done = Some (Dir True kids)"
      using Cons.prems(2)[rule_format, of "done"] by (auto simp: okdir_get)
    from get_put_at[OF this, of c "Some (Dir True [])"]
    have at: "get ?fa (done @ [c]) = Some (Dir True [])" .
    have vnone: "view fs (done @ [c]) = None" using None by (simp add: view_def)
    have p2: "\<forall>p. prefix p (done @ [c]) \<longrightarrow> okdir ?fa p"
    proof (intro allI impI)
      fix p assume "prefix p (done @ [c])"
      then consider "prefix p done" | "p = done @ [c]" by (auto simp: prefix_snoc)
      then show "okdir ?fa p"
      proof cases
        case 1
        then have "okdir fs p" using Cons.prems(2) by simp
        moreover have "p \<noteq> done @ [c]" using 1 by (auto simp: prefix_def)
        ultimately show ?thesis using vput[of p] by (auto simp: okdir_def)
      next
        case 2
        then show ?thesis using at by (simp add: okdir_get)
      qed
    qed
    have p3: "\<forall>p. prefix p rest \<longrightarrow> passable ?fa ((done @ [c]) @ p)"
    proof (intro allI impI)
      fix p assume "prefix p rest"
      show "passable ?fa ((done @ [c]) @ p)"
      proof (cases "p = []")
        case True
        then show ?thesis using at by (simp add: passable_def view_def)
      next
        case False
        then have "get ?fa ((done @ [c]) @ p) = None"
          using at get_append[of ?fa "done @ [c]" p] get_leafy_below[OF leafy False] by simp
        then show ?thesis by (simp add: passable_def view_def)
      qed
    qed
    have m: "mkdir_from ?fa (done @ [c]) rest = Inr fs1" using Cons.prems(4) e by simp
    from Cons.IH[OF dl2 p2 p3 m] have
      ok1: "\<forall>p. prefix p ((done @ [c]) @ rest) \<longrightarrow> okdir fs1 p" and
      v1: "\<forall>l. view fs1 l = view ?fa l
                  \<or> (prefix l ((done @ [c]) @ rest) \<and> view ?fa l = None \<and> view fs1 l = Some (KDir True))" and
      g1: "\<forall>L. \<not> prefix L ((done @ [c]) @ rest) \<longrightarrow> get fs1 L = get ?fa L"
      by blast+
    have r3: "view fs1 l = view fs l
                  \<or> (prefix l (done @ c # rest) \<and> view fs l = None \<and> view fs1 l = Some (KDir True))" for l
    proof -
      from v1[rule_format, of l] show ?thesis
      proof
        assume a: "view fs1 l = view ?fa l"
        from vput[of l] show ?thesis
        proof
          assume "view ?fa l = view fs l"
          then show ?thesis using a by simp
        next
          assume "l = done @ [c] \<and> view ?fa l = Some (KDir True)"
          then show ?thesis using a vnone by (auto simp: prefix_def)
        qed
      next
        assume b: "prefix l ((done @ [c]) @ rest) \<and> view ?fa l = None \<and> view fs1 l = Some (KDir True)"
        then have "view fs l = None" using vput[of l] by auto
        then show ?thesis using b by simp
      qed
    qed
    have r4: "get fs1 L = get fs L" if "\<not> prefix L (done @ c # rest)" for L
    proof -
      have "\<not> prefix L (done @ [c])" using that prefix_prefix[of L "done @ [c]" rest] by auto
      from get_put_frame[OF leafy leaf this] g1[rule_format, of L] that
      show ?thesis by simp
    qed
    have r5: "\<not> okdir fs (done @ c # rest)"
      using None get_append[of fs "done @ [c]" rest] by (simp add: okdir_get)
    show ?thesis using ok1 r3 r4 r5 by auto
  next
    case (Some n)
    then obtain kids' where n: "n = Dir True kids'"
      using pc by (cases n) (auto simp: passable_def view_def)
    have okc: "okdir fs (done @ [c])" using Some n by (simp add: okdir_get)
    have e: "ensure_dir fs (done @ [c]) = Inr fs"
      using ensure_dir_old[OF dl1 Cons.prems(2) okc] .
    have p2: "\<forall>p. prefix p (done @ [c]) \<longrightarrow> okdir fs p"
      using Cons.prems(2) okc by (auto simp: prefix_snoc)
    have p3: "\<forall>p. prefix p rest \<longrightarrow> passable fs ((done @ [c]) @ p)"
      using Cons.prems(3) by (auto simp: prefix_def)
    have m: "mkdir_from fs (done @ [c]) rest = Inr fs1" using Cons.prems(4) e by simp
    from Cons.IH[OF dl2 p2 p3 m] show ?thesis by simp
  qed
qed

lemma mkdirSync_plain:
  assumes "plain fs cs" and "dotless cs" and "cs = comps d" and "mkdirSync fs d = Inr fs1"
  shows "(\<forall>p. prefix p cs \<longrightarrow> okdir fs1 p)
           \<and> (\<forall>l. view fs1 l = view fs l
                  \<or> (prefix l cs \<and> view fs l = None \<and> view fs1 l = Some (KDir True)))
           \<and> (\<forall>L. \<not> prefix L cs \<longrightarrow> get fs1 L = get fs L)
           \<and> (okdir fs cs \<longrightarrow> fs1 = fs)"
proof -
  have 1: "dotless ([] @ cs)" using assms(2) by simp
  have 2: "\<forall>p. prefix p [] \<longrightarrow> okdir fs p" using plain_root[OF assms(1)] by simp
  have 3: "\<forall>p. prefix p cs \<longrightarrow> passable fs ([] @ p)" using assms(1) by (simp add: plain_prefix)
  have 4: "mkdir_from fs [] cs = Inr fs1"
    using assms(3,4) by (simp add: mkdirSync_def split: if_splits)
  from mkdir_from_plain[OF 1 2 3 4] show ?thesis by simp
qed


section \<open>Properties of the loop bodies\<close>

lemma sync_create_report:
  "sync_create dry dir src tgt entry result fs = (Inr r', fs') \<Longrightarrow>
     r' = result\<lparr>created := created result @ [entry]\<rparr>"
  unfolding sync_create_def Let_def
  by (simp split: if_splits sum.splits)

lemma sync_body_link:
  assumes "lstatSync fs (join [dir, sk]) = Inr (Link d)"
  shows "sync_body root dry name dir sk result fs =
     (if d = relative dir (join [root, CANONICAL_SOURCE, sk]) then
        (Inr (result\<lparr>skipped := skipped result @
               [(mk_entry root name dir sk)\<lparr>reason := Some ''already linked''\<rparr>]\<rparr>), fs)
      else if \<not> dry then
        (case unlinkSync fs (join [dir, sk]) of
           Inl e \<Rightarrow> (Inl (Sys e), fs)
         | Inr fs' \<Rightarrow> sync_create dry dir (join [root, CANONICAL_SOURCE, sk]) (join [dir, sk])
                       (mk_entry root name dir sk) result fs')
      else sync_create dry dir (join [root, CANONICAL_SOURCE, sk]) (join [dir, sk])
             (mk_entry root name dir sk) result fs)"
proof -
  have sym: "isSymlink fs (join [dir, sk])"
    using assms by (simp add: isSymlink_def isSymbolicLink_def)
  have rl: "readlinkSync fs (join [dir, sk]) = Inr d"
    using assms by (simp add: readlinkSync_def)
  show ?thesis
    unfolding sync_body_def Let_def mk_entry_def using sym rl by simp
qed

lemma sync_body_absent:
  assumes "lstatSync fs (join [dir, sk]) = Inl e"
  shows "sync_body root dry name dir sk result fs =
     sync_create dry dir (join [root, CANONICAL_SOURCE, sk]) (join [dir, sk])
             (mk_entry root name dir sk) result fs"
proof -
  have sym: "\<not> isSymlink fs (join [dir, sk])"
    using assms by (simp add: isSymlink_def)
  have ex: "\<not> existsSync fs (join [dir, sk])"
    using assms by (rule lstat_fails_not_exists)
  show ?thesis
    unfolding sync_body_def Let_def mk_entry_def using sym ex by simp
qed

lemma sync_body_real:
  assumes "lstatSync fs (join [dir, sk]) = Inr n" and "\<not> isSymbolicLink n"
  shows "sync_body root dry name dir sk result fs =
     (Inr (result\<lparr>skipped := skipped result @
               [(mk_entry root name dir sk)\<lparr>reason := Some ''real directory exists, skipping''\<rparr>]\<rparr>), fs)"
proof -
  have sym: "\<not> isSymlink fs (join [dir, sk])"
    using assms by (simp add: isSymlink_def)
  have ex: "existsSync fs (join [dir, sk])"
    using lstat_real_stat[OF assms] by (simp add: existsSync_def)
  show ?thesis
    unfolding sync_body_def Let_def mk_entry_def using sym ex by simp
qed


lemma sync_body_link_wrong:
  assumes "lstatSync fs (join [dir, sk]) = Inr (Link d)"
      and "d \<noteq> relative dir (join [root, CANONICAL_SOURCE, sk])"
      and "sync_body root dry name dir sk result fs = (Inr r', fs')"
  shows "r' = result\<lparr>created := created result @ [mk_entry root name dir sk]\<rparr>"
proof -
  let ?create = "sync_create dry dir (join [root, CANONICAL_SOURCE, sk]) (join [dir, sk])
                   (mk_entry root name dir sk) result"
  have "\<exists>fs0. ?create fs0 = (Inr r', fs')"
  proof (cases "\<not> dry")
    case False
    then have "sync_body root dry name dir sk result fs = ?create fs"
      using assms(2) sync_body_link[OF assms(1), of root dry name result] by simp
    with assms(3) show ?thesis by auto
  next
    case True
    show ?thesis
    proof (cases "unlinkSync fs (join [dir, sk])")
      case (Inl e)
      then have "sync_body root dry name dir sk result fs = (Inl (Sys e), fs)"
        using True assms(2) sync_body_link[OF assms(1), of root dry name result] by simp
      with assms(3) show ?thesis by simp
    next
      case (Inr fs1)
      then have "sync_body root dry name dir sk result fs = ?create fs1"
        using True assms(2) sync_body_link[OF assms(1), of root dry name result] by simp
      with assms(3) show ?thesis by auto
    qed
  qed
  then show ?thesis by (auto dest: sync_create_report)
qed

lemma sync_body_shape:
  assumes "sync_body root dry name dir sk result fs = (Inr r', fs')"
  shows "r' = result\<lparr>created := created result @ [mk_entry root name dir sk]\<rparr>
       \<or> (\<exists>why. r' = result\<lparr>skipped := skipped result @
                        [(mk_entry root name dir sk)\<lparr>reason := Some why\<rparr>]\<rparr> \<and> fs' = fs)"
proof (cases "lstatSync fs (join [dir, sk])")
  case (Inl e)
  then have "sync_create dry dir (join [root, CANONICAL_SOURCE, sk]) (join [dir, sk])
             (mk_entry root name dir sk) result fs = (Inr r', fs')"
    using assms sync_body_absent[of fs dir sk e root dry name result] by simp
  then show ?thesis by (auto dest: sync_create_report)
next
  case (Inr n)
  show ?thesis
  proof (cases n)
    case (Link d)
    show ?thesis
    proof (cases "d = relative dir (join [root, CANONICAL_SOURCE, sk])")
      case True
      then show ?thesis
        using assms Inr Link sync_body_link[of fs dir sk d root dry name result] by auto
    next
      case False
      then show ?thesis
        using assms Inr Link sync_body_link_wrong[of fs dir sk d root dry name result r' fs'] by simp
    qed
  next
    case (File b)
    then show ?thesis
      using assms Inr sync_body_real[of fs dir sk n root dry name result]
      by (auto simp: isSymbolicLink_def)
  next
    case (Dir ok kids)
    then show ?thesis
      using assms Inr sync_body_real[of fs dir sk n root dry name result]
      by (auto simp: isSymbolicLink_def)
  qed
qed

lemma sync_body_outcomes:
  assumes "sync_body root dry name dir sk result fs = (Inr r', fs')"
  shows "failed r' = failed result
       \<and> (\<forall>e \<in> set (outcomes r'). e \<in> set (outcomes result) \<or> (skill e = sk \<and> agent e = name))"
  using sync_body_shape[OF assms] by (auto simp: outcomes_def mk_entry_def)

lemma sync_skills_outcomes:
  "sync_skills root dry name dir sks result fs = (Inr r', fs') \<Longrightarrow>
     failed r' = failed result
     \<and> (\<forall>e \<in> set (outcomes r'). e \<in> set (outcomes result) \<or> (skill e \<in> set sks \<and> agent e = name))"
proof (induction sks arbitrary: result fs)
  case Nil
  then show ?case by simp
next
  case (Cons sk sks)
  from Cons.prems obtain r1 fs1 where
    b: "sync_body root dry name dir sk result fs = (Inr r1, fs1)" and
    rest: "sync_skills root dry name dir sks r1 fs1 = (Inr r', fs')"
    by (auto split: prod.splits sum.splits)
  from sync_body_outcomes[OF b] Cons.IH[OF rest] show ?case by auto
qed

lemma sync_agents_outcomes:
  "sync_agents root dry skills ags result fs = (Inr r', fs') \<Longrightarrow>
     failed r' = failed result
     \<and> (\<forall>e \<in> set (outcomes r'). e \<in> set (outcomes result)
           \<or> (skill e \<in> set skills \<and> agent e \<in> fst ` set ags))"
proof (induction ags arbitrary: result fs)
  case Nil
  then show ?case by simp
next
  case (Cons a ags)
  obtain name cfg where a: "a = (name, cfg)" by (cases a)
  from Cons.prems a obtain r1 fs1 where
    b: "sync_skills root dry name (join [root, skillsDir cfg]) skills result fs = (Inr r1, fs1)" and
    rest: "sync_agents root dry skills ags r1 fs1 = (Inr r', fs')"
    by (auto simp: Let_def split: prod.splits sum.splits)
  from sync_skills_outcomes[OF b] Cons.IH[OF rest] a show ?case by auto
qed

lemma sync_skills_append:
  "sync_skills root dry name dir (xs @ ys) result fs =
     (case sync_skills root dry name dir xs result fs of
        (Inl e, fs') \<Rightarrow> (Inl e, fs')
      | (Inr r', fs') \<Rightarrow> sync_skills root dry name dir ys r' fs')"
  by (induction xs arbitrary: result fs) (auto split: prod.splits sum.splits)

lemma sync_agents_append:
  "sync_agents root dry skills (xs @ ys) result fs =
     (case sync_agents root dry skills xs result fs of
        (Inl e, fs') \<Rightarrow> (Inl e, fs')
      | (Inr r', fs') \<Rightarrow> sync_agents root dry skills ys r' fs')"
  by (induction xs arbitrary: result fs) (auto simp: Let_def split: prod.splits sum.splits)


lemma syncSkills_failed_empty:
  "syncSkills root options fs = (Inr r, fs') \<Longrightarrow> failed r = []"
  by (auto simp: syncSkills_def emptyResult_def split: sum.splits dest!: sync_agents_outcomes)

lemma status_body_names:
  "status_body root dir fs sk (lnk, unl, wrg) = Inr (lnk', unl', wrg') \<Longrightarrow>
     set (lnk' @ unl' @ wrg') \<subseteq> insert sk (set (lnk @ unl @ wrg))"
  by (auto simp: status_body_def Let_def split: if_splits sum.splits)

lemma status_skills_names:
  "status_skills root dir fs sks acc = Inr acc' \<Longrightarrow>
     (case acc' of (lnk', unl', wrg') \<Rightarrow> case acc of (lnk, unl, wrg) \<Rightarrow>
        set (lnk' @ unl' @ wrg') \<subseteq> set sks \<union> set (lnk @ unl @ wrg))"
proof (induction sks arbitrary: acc)
  case Nil
  then show ?case by (auto split: prod.splits)
next
  case (Cons sk sks)
  from Cons.prems obtain acc1 where
    b: "status_body root dir fs sk acc = Inr acc1" and
    rest: "status_skills root dir fs sks acc1 = Inr acc'"
    by (auto split: sum.splits)
  obtain l u w where acc: "acc = (l, u, w)" by (cases acc) auto
  obtain l1 u1 w1 where acc1: "acc1 = (l1, u1, w1)" by (cases acc1) auto
  obtain l' u' w' where acc': "acc' = (l', u', w')" by (cases acc') auto
  from status_body_names[of root dir fs sk l u w l1 u1 w1] b acc acc1
  have 1: "set (l1 @ u1 @ w1) \<subseteq> insert sk (set (l @ u @ w))" by simp
  from Cons.IH[OF rest] acc1 acc'
  have 2: "set (l' @ u' @ w') \<subseteq> set sks \<union> set (l1 @ u1 @ w1)" by simp
  from 1 2 show ?case unfolding acc acc' by auto
qed

lemma status_agents_names:
  "status_agents root fs skills ags sts = Inr sts' \<Longrightarrow>
     \<forall>st \<in> set sts'. st \<in> set sts \<or> set (linked st @ unlinked st @ wrong st) \<subseteq> set skills"
proof (induction ags arbitrary: sts)
  case Nil
  then show ?case by simp
next
  case (Cons a ags)
  obtain name cfg where a: "a = (name, cfg)" by (cases a)
  from Cons.prems a obtain l u w where
    b: "status_skills root (join [root, skillsDir cfg]) fs skills ([], [], []) = Inr (l, u, w)" and
    rest: "status_agents root fs skills ags
             (sts @ [\<lparr>st_agent = name, st_skillsDir = skillsDir cfg,
                       linked = l, unlinked = u, wrong = w\<rparr>]) = Inr sts'"
    by (auto simp: Let_def split: sum.splits prod.splits)
  let ?new = "\<lparr>st_agent = name, st_skillsDir = skillsDir cfg,
                linked = l, unlinked = u, wrong = w\<rparr>"
  from status_skills_names[OF b]
  have new: "set (linked ?new @ unlinked ?new @ wrong ?new) \<subseteq> set skills" by simp
  show ?case
  proof
    fix st assume "st \<in> set sts'"
    with Cons.IH[OF rest]
    have "st \<in> set sts \<or> st = ?new
            \<or> set (linked st @ unlinked st @ wrong st) \<subseteq> set skills"
      by auto
    then show "st \<in> set sts \<or> set (linked st @ unlinked st @ wrong st) \<subseteq> set skills"
      using new by blast
  qed
qed

lemma discoverSkills_readdir:
  assumes "readdirSync fs (join [root, CANONICAL_SOURCE]) = Inr entries"
  shows "discoverSkills fs root = Inr (map fst (filter (\<lambda>e. isDirectory (snd e)) entries))"
proof -
  have "existsSync fs (join [root, CANONICAL_SOURCE])"
    using assms by (auto simp: readdirSync_def existsSync_def split: sum.splits)
  then show ?thesis using assms by (simp add: discoverSkills_def)
qed


section \<open>The sync loop on plain mirror roots\<close>

lemma okdir_prefixes_plain: "\<forall>p. prefix p cs \<longrightarrow> okdir fs p \<Longrightarrow> plain fs cs"
  by (simp add: plain_def in_set_prefixes okdir_passable)

lemma symlink_inr: "symlinkSync fs dest p = Inr fs' \<Longrightarrow> length p < PATH_MAX \<and> dest \<noteq> []"
  by (auto simp: symlinkSync_def path_walk_def split: if_splits)

lemma symlink_plain:
  assumes "plain fs cs" and "okdir fs cs" and "plain_path d" and "cs = comps d" and "valid_name sk"
      and "symlinkSync fs exp (join [d, sk]) = Inr fs'"
  shows "fs' = put (cs @ [sk]) (Some (Link exp)) fs \<and> get fs (cs @ [sk]) = None"
proof -
  have len: "length (join [d, sk]) < PATH_MAX" using symlink_inr[OF assms(6)] by simp
  have nd: "\<not> dir_wanted (join [d, sk])" using join_name_file[OF assms(5,3)] by simp
  note pw = path_walk_plain[OF assms(1)[unfolded assms(4)] assms(3,5) len assms(2)[unfolded assms(4)]]
  show ?thesis
  proof (cases "get fs (cs @ [sk])")
    case None
    then show ?thesis using assms(6) pw nd unfolding assms(4)
      by (auto simp: symlinkSync_def split: if_splits)
  next
    case (Some m)
    then show ?thesis using assms(6) pw unfolding assms(4)
      by (auto simp: symlinkSync_def split: if_splits)
  qed
qed

lemma unlink_plain:
  assumes "plain fs cs" and "okdir fs cs" and "plain_path d" and "cs = comps d" and "valid_name sk"
      and "length (join [d, sk]) < PATH_MAX"
      and "get fs (cs @ [sk]) = Some (Link x)"
  shows "unlinkSync fs (join [d, sk]) = Inr (put (cs @ [sk]) None fs)"
proof -
  have nd: "\<not> dir_wanted (join [d, sk])" using join_name_file[OF assms(5,3)] by simp
  note pw = path_walk_plain[OF assms(1)[unfolded assms(4)] assms(3,5,6) assms(2)[unfolded assms(4)]]
  show ?thesis using pw nd assms(7) unfolding assms(4) by (simp add: unlinkSync_def)
qed

lemma sync_create_inr:
  "sync_create False d src tgt entry result fs = (Inr r', fs') \<Longrightarrow>
     \<exists>fs1. mkdirSync fs d = Inr fs1 \<and> symlinkSync fs1 (relative d src) tgt = Inr fs'
          \<and> r' = result\<lparr>created := created result @ [entry]\<rparr>"
  by (auto simp: sync_create_def split: sum.splits)

text \<open>A pair that a run without preview gets past has a link path of admissible length.\<close>

lemma sync_body_len:
  assumes "sync_body root False name d sk result fs = (Inr r', fs')"
  shows "length (join [d, sk]) < PATH_MAX"
proof (rule ccontr)
  assume "\<not> length (join [d, sk]) < PATH_MAX"
  then have long: "PATH_MAX \<le> length (join [d, sk])" by simp
  from lstat_long[OF this, of fs] obtain e where "lstatSync fs (join [d, sk]) = Inl e" by blast
  from sync_body_absent[OF this, of root False name result] assms
  have "sync_create False d (join [root, CANONICAL_SOURCE, sk]) (join [d, sk])
          (mk_entry root name d sk) result fs = (Inr r', fs')" by simp
  from sync_create_inr[OF this] obtain fs1 where
    "symlinkSync fs1 (relative d (join [root, CANONICAL_SOURCE, sk])) (join [d, sk]) = Inr fs'"
    by blast
  from symlink_inr[OF this] long show False by simp
qed

lemma sync_create_plain:
  assumes "plain fs cs" and "plain_path d" and "cs = comps d" and "valid_name sk"
      and "get fs (cs @ [sk]) = None" and "exp = relative d src"
      and "sync_create False d src (join [d, sk]) entry result fs = (Inr r', fs')"
  shows "r' = result\<lparr>created := created result @ [entry]\<rparr>
               \<and> effect fs fs' cs sk exp
               \<and> okdir fs' cs \<and> get fs' (cs @ [sk]) = Some (Link exp)"
proof -
  have dl: "dotless cs" using assms(2,3) by (simp add: plain_path_def dotless_def)
  from sync_create_inr[OF assms(7)] obtain fs1 where
    mk: "mkdirSync fs d = Inr fs1" and
    sl0: "symlinkSync fs1 exp (join [d, sk]) = Inr fs'" and
    res: "r' = result\<lparr>created := created result @ [entry]\<rparr>"
    using assms(6) by blast
  from mkdirSync_plain[OF assms(1) dl assms(3) mk] have
    ok1: "\<forall>p. prefix p cs \<longrightarrow> okdir fs1 p" and
    v1: "\<forall>l. view fs1 l = view fs l
                  \<or> (prefix l cs \<and> view fs l = None \<and> view fs1 l = Some (KDir True))" and
    g1: "\<forall>L. \<not> prefix L cs \<longrightarrow> get fs1 L = get fs L"
    by blast+
  have pl1: "plain fs1 cs" using ok1 by (rule okdir_prefixes_plain)
  have okc: "okdir fs1 cs" using ok1 by simp
  have "\<not> prefix (cs @ [sk]) cs" by (simp add: prefix_def)
  then have none1: "get fs1 (cs @ [sk]) = None" using g1 assms(5) by simp
  let ?fs' = "put (cs @ [sk]) (Some (Link exp)) fs1"
  have sl: "fs' = ?fs'"
    using symlink_plain[OF pl1 okc assms(2,3,4) sl0] by simp
  have leafy: "leafy (Some (Link exp))" by (simp add: leafy_def)
  have leaf: "is_leaf (get fs1 (cs @ [sk]))" using none1 by (simp add: is_leaf_def)
  have vput: "view ?fs' l = view fs1 l \<or> (l = cs @ [sk] \<and> view ?fs' l = Some (KLink exp))" for l
    using view_put[OF leafy leaf, of l] by auto
  obtain kids where gcs: "get fs1 cs = Some (Dir True kids)" using okc by (auto simp: okdir_get)
  have at: "get ?fs' (cs @ [sk]) = Some (Link exp)" using get_put_at[OF gcs] .
  have okc': "okdir ?fs' cs" using vput[of cs] okc by (auto simp: okdir_def)
  have eff: "effect fs ?fs' cs sk exp"
    unfolding effect_def
  proof (intro conjI allI impI)
    fix l
    show "view ?fs' l = view fs l \<or> (l = cs @ [sk] \<and> view ?fs' l = Some (KLink exp))
            \<or> (prefix l cs \<and> view fs l = None \<and> view ?fs' l = Some (KDir True))"
      using vput[of l] v1[rule_format, of l] by auto
  next
    fix L assume np: "\<not> prefix L (cs @ [sk])"
    then have "\<not> prefix L cs" using prefix_prefix[of L cs "[sk]"] by auto
    then show "get ?fs' L = get fs L"
      using get_put_frame[OF leafy leaf np] g1 by simp
  qed
  show ?thesis using res eff okc' at unfolding sl by blast
qed

lemma effect_trans_unlink:
  assumes "get fs (cs @ [sk]) = Some (Link x)"
      and "effect (put (cs @ [sk]) None fs) fs' cs sk exp"
      and "get fs' (cs @ [sk]) = Some (Link exp)"
  shows "effect fs fs' cs sk exp"
proof -
  let ?f0 = "put (cs @ [sk]) None fs"
  have leafy: "leafy None" by (simp add: leafy_def)
  have leaf: "is_leaf (get fs (cs @ [sk]))" using assms(1) by (simp add: is_leaf_def)
  have vput: "view ?f0 l = view fs l \<or> (l = cs @ [sk] \<and> view ?f0 l = None)" for l
    using view_put[OF leafy leaf, of l] by auto
  show ?thesis
    unfolding effect_def
  proof (intro conjI allI impI)
    fix l
    from assms(2) have e: "view fs' l = view ?f0 l \<or> (l = cs @ [sk] \<and> view fs' l = Some (KLink exp))
            \<or> (prefix l cs \<and> view ?f0 l = None \<and> view fs' l = Some (KDir True))"
      by (simp add: effect_def)
    have pc: "prefix l cs \<Longrightarrow> l \<noteq> cs @ [sk]" by (auto simp: prefix_def)
    show "view fs' l = view fs l \<or> (l = cs @ [sk] \<and> view fs' l = Some (KLink exp))
            \<or> (prefix l cs \<and> view fs l = None \<and> view fs' l = Some (KDir True))"
    proof (cases "l = cs @ [sk]")
      case True
      have "view fs' l = Some (KLink exp)"
        using assms(3) True by (simp add: view_def)
      then show ?thesis using True by simp
    next
      case False
      then have "view ?f0 l = view fs l" using vput[of l] by simp
      then show ?thesis using e by auto
    qed
  next
    fix L assume np: "\<not> prefix L (cs @ [sk])"
    from assms(2) have "get fs' L = get ?f0 L" using np by (simp add: effect_def)
    then show "get fs' L = get fs L" using get_put_frame[OF leafy leaf np] by simp
  qed
qed

lemma sync_body_plain_settled:
  assumes "plain fs (comps d)" and "plain_path d" and "valid_name sk"
      and "settled_node (relative d (join [root, CANONICAL_SOURCE, sk])) (look fs (comps d) sk)"
      and "length (join [d, sk]) < PATH_MAX"
  shows "sync_body root dry name d sk result fs =
           (Inr (result\<lparr>skipped := skipped result @
              [(mk_entry root name d sk)\<lparr>reason := Some
                 (if isSymlink fs (join [d, sk]) then ''already linked''
                  else ''real directory exists, skipping'')\<rparr>]\<rparr>), fs)"
proof -
  from assms(4) obtain n where lk: "look fs (comps d) sk = Some n"
    by (cases "look fs (comps d) sk") (auto simp: settled_node_def)
  then have ls: "lstatSync fs (join [d, sk]) = Inr n"
    using lstat_plain_some[OF assms(1,2,3,5)] by simp
  show ?thesis
  proof (cases n)
    case (Link x)
    then have "x = relative d (join [root, CANONICAL_SOURCE, sk])"
      using assms(4) lk by (simp add: settled_node_def)
    then show ?thesis
      using sync_body_link[of fs d sk x root dry name result] ls Link
      by (simp add: isSymlink_def isSymbolicLink_def)
  next
    case (File b)
    then show ?thesis
      using sync_body_real[of fs d sk n root dry name result] ls
      by (simp add: isSymlink_def isSymbolicLink_def)
  next
    case (Dir ok kids)
    then show ?thesis
      using sync_body_real[of fs d sk n root dry name result] ls
      by (simp add: isSymlink_def isSymbolicLink_def)
  qed
qed

lemma sync_body_plain_dry:
  assumes "plain fs (comps d)" and "plain_path d" and "valid_name sk"
      and "\<not> settled_node (relative d (join [root, CANONICAL_SOURCE, sk])) (look fs (comps d) sk)"
  shows "sync_body root True name d sk result fs =
           (Inr (result\<lparr>created := created result @ [mk_entry root name d sk]\<rparr>), fs)"
proof (cases "lstatSync fs (join [d, sk])")
  case (Inl e)
  from sync_body_absent[OF this, of root True name result]
  show ?thesis by (simp add: sync_create_def)
next
  case (Inr n)
  from lstat_plain_inr[OF assms(1,2,3) Inr] have lk: "look fs (comps d) sk = Some n" by simp
  from lk assms(4) obtain x where n: "n = Link x"
    and x: "x \<noteq> relative d (join [root, CANONICAL_SOURCE, sk])"
    by (cases n) (auto simp: settled_node_def)
  from sync_body_link[of fs d sk x root True name result] Inr n x
  show ?thesis by (simp add: sync_create_def)
qed

lemma sync_body_plain_create:
  assumes "plain fs (comps d)" and "plain_path d" and "valid_name sk"
      and "\<not> settled_node (relative d (join [root, CANONICAL_SOURCE, sk])) (look fs (comps d) sk)"
      and "sync_body root False name d sk result fs = (Inr r', fs')"
  shows "r' = result\<lparr>created := created result @ [mk_entry root name d sk]\<rparr>
               \<and> effect fs fs' (comps d) sk (relative d (join [root, CANONICAL_SOURCE, sk]))
               \<and> look fs' (comps d) sk = Some (Link (relative d (join [root, CANONICAL_SOURCE, sk])))"
proof -
  let ?cs = "comps d"
  let ?src = "join [root, CANONICAL_SOURCE, sk]"
  let ?exp = "relative d ?src"
  let ?entry = "mk_entry root name d sk"
  note len = sync_body_len[OF assms(5)]
  show ?thesis
  proof (cases "look fs ?cs sk")
    case None
    from lstat_plain_none[OF assms(1,2,3) None] obtain e where
      ls: "lstatSync fs (join [d, sk]) = Inl e" by blast
    have absent: "get fs (?cs @ [sk]) = None"
    proof (cases "okdir fs ?cs")
      case True
      then show ?thesis using None by (simp add: look_def)
    next
      case False
      then have "get fs ?cs = None" using plain_cases[OF assms(1)] by simp
      then show ?thesis by (simp add: get_append)
    qed
    have c: "sync_create False d ?src (join [d, sk]) ?entry result fs = (Inr r', fs')"
      using sync_body_absent[OF ls, of root False name result] assms(5) by simp
    from sync_create_plain[OF assms(1,2) refl assms(3) absent refl c]
    have r: "r' = result\<lparr>created := created result @ [?entry]\<rparr>" and
      e: "effect fs fs' ?cs sk ?exp" and ok: "okdir fs' ?cs" and
      g: "get fs' (?cs @ [sk]) = Some (Link ?exp)"
      by blast+
    show ?thesis using r e ok g by (auto simp: look_def)
  next
    case (Some n)
    then have ls: "lstatSync fs (join [d, sk]) = Inr n"
      using lstat_plain_some[OF assms(1,2,3) len] by simp
    from Some assms(4) obtain x where n: "n = Link x" and x: "x \<noteq> ?exp"
      by (cases n) (auto simp: settled_node_def)
    have okc: "okdir fs ?cs" and gx: "get fs (?cs @ [sk]) = Some (Link x)"
      using Some n by (auto simp: look_def split: if_splits)
    let ?f0 = "put (?cs @ [sk]) None fs"
    have ul: "unlinkSync fs (join [d, sk]) = Inr ?f0"
      using unlink_plain[OF assms(1) okc assms(2) refl assms(3) len gx] .
    have leafy: "leafy None" by (simp add: leafy_def)
    have leaf: "is_leaf (get fs (?cs @ [sk]))" using gx by (simp add: is_leaf_def)
    have vput: "view ?f0 l = view fs l \<or> l = ?cs @ [sk]" for l
      using view_put[OF leafy leaf, of l] by auto
    have "passable ?f0 p" if p: "prefix p ?cs" for p
    proof -
      from p have "p \<noteq> ?cs @ [sk]" by (auto simp: prefix_def)
      then have "view ?f0 p = view fs p" using vput[of p] by simp
      then show ?thesis using plain_prefix[OF assms(1) p] by (simp add: passable_def)
    qed
    then have pl0: "plain ?f0 ?cs"
      by (simp add: plain_def in_set_prefixes)
    obtain kids where "get fs ?cs = Some (Dir True kids)" using okc by (auto simp: okdir_get)
    from get_put_at[OF this, of sk None]
    have absent0: "get ?f0 (?cs @ [sk]) = None" .
    have c: "sync_create False d ?src (join [d, sk]) ?entry result ?f0 = (Inr r', fs')"
      using sync_body_link[of fs d sk x root False name result] ls n x ul assms(5) by simp
    from sync_create_plain[OF pl0 assms(2) refl assms(3) absent0 refl c]
    have r: "r' = result\<lparr>created := created result @ [?entry]\<rparr>" and
      e: "effect ?f0 fs' ?cs sk ?exp" and ok: "okdir fs' ?cs" and
      g: "get fs' (?cs @ [sk]) = Some (Link ?exp)"
      by blast+
    have "effect fs fs' ?cs sk ?exp"
      using effect_trans_unlink[OF gx e g] .
    then show ?thesis using r ok g by (auto simp: look_def)
  qed
qed

lemma expected_comps: "comps d = comps d' \<Longrightarrow> expected root d s = expected root d' s"
  unfolding expected_def by (rule relative_comps)

lemma frame_plain:
  assumes "effect fs fs' cs sk exp" and "plain fs cs2" and "\<not> strict_prefix cs cs2"
  shows "plain fs' cs2"
proof -
  have "passable fs' p" if p: "prefix p cs2" for p
  proof -
    from assms(1) have "view fs' p = view fs p \<or> (p = cs @ [sk] \<and> view fs' p = Some (KLink exp))
          \<or> (prefix p cs \<and> view fs p = None \<and> view fs' p = Some (KDir True))"
      by (simp add: effect_def)
    moreover have "p \<noteq> cs @ [sk]"
    proof
      assume "p = cs @ [sk]"
      then have "strict_prefix cs cs2" using p by (auto simp: strict_prefix_def prefix_def)
      then show False using assms(3) by simp
    qed
    ultimately show ?thesis using plain_prefix[OF assms(2) p] by (auto simp: passable_def)
  qed
  then show ?thesis by (simp add: plain_def in_set_prefixes)
qed

lemma frame_look:
  assumes "effect fs fs' cs sk exp" and "plain fs cs2"
      and "\<not> strict_prefix cs cs2" and "\<not> strict_prefix cs2 cs"
      and "cs2 @ [sk2] \<noteq> cs @ [sk]"
  shows "look fs' cs2 sk2 = look fs cs2 sk2"
proof -
  have np: "\<not> prefix (cs2 @ [sk2]) (cs @ [sk])"
  proof
    assume "prefix (cs2 @ [sk2]) (cs @ [sk])"
    then have "prefix (cs2 @ [sk2]) cs" using assms(5) by (auto simp: prefix_snoc)
    then have "strict_prefix cs2 cs" by (auto simp: strict_prefix_def prefix_def)
    then show False using assms(4) by simp
  qed
  then have g: "get fs' (cs2 @ [sk2]) = get fs (cs2 @ [sk2])"
    using assms(1) by (simp add: effect_def)
  have v: "view fs' cs2 = view fs cs2 \<or> (cs2 = cs @ [sk] \<and> view fs' cs2 = Some (KLink exp))
          \<or> (prefix cs2 cs \<and> view fs cs2 = None \<and> view fs' cs2 = Some (KDir True))"
    using assms(1) by (simp add: effect_def)
  have ne: "cs2 \<noteq> cs @ [sk]"
  proof
    assume "cs2 = cs @ [sk]"
    then have "strict_prefix cs cs2" by (auto simp: strict_prefix_def)
    then show False using assms(3) by simp
  qed
  show ?thesis
  proof (cases "view fs' cs2 = view fs cs2")
    case True
    then show ?thesis using g by (simp add: look_def okdir_def)
  next
    case False
    then have new: "view fs cs2 = None" "view fs' cs2 = Some (KDir True)"
      using v ne by auto
    then have "get fs (cs2 @ [sk2]) = None" by (simp add: view_def get_append)
    then show ?thesis using g new by (simp add: look_def okdir_def)
  qed
qed

lemma sync_body_step:
  assumes "\<forall>d' \<in> D. plain_path d'" and "separated D" and "d \<in> D" and "valid_name sk"
      and "\<forall>d' \<in> D. plain fs (comps d')"
      and "sync_body root False name d sk result fs = (Inr r', fs')"
  shows "(\<forall>d' \<in> D. plain fs' (comps d'))
           \<and> settled_node (expected root d sk) (look fs' (comps d) sk)
           \<and> (\<forall>d' \<in> D. \<forall>s. look fs' (comps d') s = look fs (comps d') s
                 \<or> (comps d' = comps d \<and> s = sk
                      \<and> \<not> settled_node (expected root d sk) (look fs (comps d) sk)
                      \<and> look fs' (comps d') s = Some (Link (expected root d sk))))
           \<and> r' = (if settled_node (expected root d sk) (look fs (comps d) sk)
                   then result\<lparr>skipped := skipped result @
                          [(mk_entry root name d sk)\<lparr>reason := Some
                             (if isSymlink fs (join [d, sk]) then ''already linked''
                              else ''real directory exists, skipping'')\<rparr>]\<rparr>
                   else result\<lparr>created := created result @ [mk_entry root name d sk]\<rparr>)"
proof -
  have pd: "plain_path d" and pl: "plain fs (comps d)" using assms(1,3,5) by auto
  note len = sync_body_len[OF assms(6)]
  show ?thesis
  proof (cases "settled_node (expected root d sk) (look fs (comps d) sk)")
    case True
    from sync_body_plain_settled[OF pl pd assms(4) True[unfolded expected_def] len,
        of False name result] assms(6)
    show ?thesis using True assms(5) by auto
  next
    case False
    from sync_body_plain_create[OF pl pd assms(4) False[unfolded expected_def] assms(6)]
    have b: "r' = result\<lparr>created := created result @ [mk_entry root name d sk]\<rparr>" and
      e: "effect fs fs' (comps d) sk (expected root d sk)" and
      l: "look fs' (comps d) sk = Some (Link (expected root d sk))"
      by (auto simp: expected_def)
    have sepd: "\<not> strict_prefix (comps d) (comps d')" "\<not> strict_prefix (comps d') (comps d)"
      if "d' \<in> D" for d'
      using assms(2,3) that by (auto simp: separated_def)
    have p': "\<forall>d' \<in> D. plain fs' (comps d')"
      using frame_plain[OF e] assms(5) sepd by blast
    have s': "settled_node (expected root d sk) (look fs' (comps d) sk)"
      using l by (simp add: settled_node_def)
    have f': "look fs' (comps d') s = look fs (comps d') s
                 \<or> (comps d' = comps d \<and> s = sk
                      \<and> \<not> settled_node (expected root d sk) (look fs (comps d) sk)
                      \<and> look fs' (comps d') s = Some (Link (expected root d sk)))"
      if d': "d' \<in> D" for d' s
    proof (cases "comps d' @ [s] = comps d @ [sk]")
      case True
      then show ?thesis using False l by simp
    next
      case ne: False
      have "plain fs (comps d')" using assms(5) d' by simp
      from frame_look[OF e this sepd(1)[OF d'] sepd(2)[OF d'] ne]
      show ?thesis by simp
    qed
    show ?thesis using b p' s' f' False by auto
  qed
qed

lemma sync_skills_plain:
  assumes "\<forall>d' \<in> D. plain_path d'" and "separated D" and "d \<in> D"
      and "\<forall>sk \<in> set sks. valid_name sk" and "\<forall>d' \<in> D. plain fs (comps d')"
      and "sync_skills root False name d sks result fs = (Inr r', fs')"
  shows "(\<forall>d' \<in> D. plain fs' (comps d'))
           \<and> (\<forall>sk \<in> set sks. settled_node (expected root d sk) (look fs' (comps d) sk))
           \<and> (\<forall>d' \<in> D. \<forall>s. look fs' (comps d') s = look fs (comps d') s
                 \<or> (comps d' = comps d \<and> s \<in> set sks
                      \<and> \<not> settled_node (expected root d s) (look fs (comps d) s)
                      \<and> look fs' (comps d') s = Some (Link (expected root d s))))
           \<and> (\<forall>sk \<in> set sks. length (join [d, sk]) < PATH_MAX)"
  using assms(4,5,6)
proof (induction sks arbitrary: result fs)
  case Nil
  then show ?case by simp
next
  case (Cons sk sks)
  have vn: "valid_name sk" and vns: "\<forall>sk \<in> set sks. valid_name sk"
    using Cons.prems(1) by simp_all
  from Cons.prems(3) obtain r1 fs1 where
    b: "sync_body root False name d sk result fs = (Inr r1, fs1)" and
    l: "sync_skills root False name d sks r1 fs1 = (Inr r', fs')"
    by (auto split: prod.splits sum.splits)
  from sync_body_step[OF assms(1,2,3) vn Cons.prems(2) b] have
    p1: "\<forall>d' \<in> D. plain fs1 (comps d')" and
    s1: "settled_node (expected root d sk) (look fs1 (comps d) sk)" and
    f1: "\<forall>d' \<in> D. \<forall>s. look fs1 (comps d') s = look fs (comps d') s
                 \<or> (comps d' = comps d \<and> s = sk
                      \<and> \<not> settled_node (expected root d sk) (look fs (comps d) sk)
                      \<and> look fs1 (comps d') s = Some (Link (expected root d sk)))"
    by blast+
  note len1 = sync_body_len[OF b]
  from Cons.IH[OF vns p1 l] have
    p': "\<forall>d' \<in> D. plain fs' (comps d')" and
    s': "\<forall>s \<in> set sks. settled_node (expected root d s) (look fs' (comps d) s)" and
    f': "\<forall>d' \<in> D. \<forall>s. look fs' (comps d') s = look fs1 (comps d') s
                 \<or> (comps d' = comps d \<and> s \<in> set sks
                      \<and> \<not> settled_node (expected root d s) (look fs1 (comps d) s)
                      \<and> look fs' (comps d') s = Some (Link (expected root d s)))" and
    len': "\<forall>s \<in> set sks. length (join [d, s]) < PATH_MAX"
    by blast+
  have keep: "look fs' (comps d) sk = look fs1 (comps d) sk"
    using f'[rule_format, OF assms(3), of sk] s1 by auto
  have own: "\<forall>s \<in> set (sk # sks). settled_node (expected root d s) (look fs' (comps d) s)"
    using s' s1 keep by simp
  have frame: "look fs' (comps d') s = look fs (comps d') s
                 \<or> (comps d' = comps d \<and> s \<in> set (sk # sks)
                      \<and> \<not> settled_node (expected root d s) (look fs (comps d) s)
                      \<and> look fs' (comps d') s = Some (Link (expected root d s)))"
    if d': "d' \<in> D" for d' s
  proof -
    from f1[rule_format, OF d', of s] show ?thesis
    proof
      assume same1: "look fs1 (comps d') s = look fs (comps d') s"
      from f'[rule_format, OF d', of s] show ?thesis
      proof
        assume "look fs' (comps d') s = look fs1 (comps d') s"
        then show ?thesis using same1 by simp
      next
        assume c: "comps d' = comps d \<and> s \<in> set sks
                      \<and> \<not> settled_node (expected root d s) (look fs1 (comps d) s)
                      \<and> look fs' (comps d') s = Some (Link (expected root d s))"
        then have c1: "comps d' = comps d" "s \<in> set sks"
          "\<not> settled_node (expected root d s) (look fs1 (comps d) s)"
          "look fs' (comps d') s = Some (Link (expected root d s))"
          by blast+
        have "\<not> settled_node (expected root d s) (look fs (comps d) s)"
          using same1 c1(1,3) by simp
        then show ?thesis using c1 by simp
      qed
    next
      assume ch: "comps d' = comps d \<and> s = sk
                      \<and> \<not> settled_node (expected root d sk) (look fs (comps d) sk)
                      \<and> look fs1 (comps d') s = Some (Link (expected root d sk))"
      then have c1: "comps d' = comps d" "s = sk"
          "\<not> settled_node (expected root d sk) (look fs (comps d) sk)"
          "look fs1 (comps d') s = Some (Link (expected root d sk))"
        by blast+
      have "look fs' (comps d') s = look fs1 (comps d') s" using keep c1(1,2) by simp
      then show ?thesis using c1 by simp
    qed
  qed
  show ?case
  proof (intro conjI)
    show "\<forall>d' \<in> D. plain fs' (comps d')" by (rule p')
    show "\<forall>s \<in> set (sk # sks). settled_node (expected root d s) (look fs' (comps d) s)"
      by (rule own)
    show "\<forall>d' \<in> D. \<forall>s. look fs' (comps d') s = look fs (comps d') s
                 \<or> (comps d' = comps d \<and> s \<in> set (sk # sks)
                      \<and> \<not> settled_node (expected root d s) (look fs (comps d) s)
                      \<and> look fs' (comps d') s = Some (Link (expected root d s)))"
      using frame by blast
    show "\<forall>s \<in> set (sk # sks). length (join [d, s]) < PATH_MAX"
      using len1 len' by simp
  qed
qed

lemma sync_agents_plain:
  assumes "\<forall>d' \<in> D. plain_path d'" and "separated D"
      and "\<forall>sk \<in> set skills. valid_name sk"
      and "\<forall>a \<in> set ags. mirror_root root (snd a) \<in> D"
      and "\<forall>d' \<in> D. plain fs (comps d')"
      and "sync_agents root False skills ags result fs = (Inr r', fs')"
  shows "(\<forall>d' \<in> D. plain fs' (comps d'))
           \<and> (\<forall>a \<in> set ags. \<forall>sk \<in> set skills.
                 settled_node (expected root (mirror_root root (snd a)) sk)
                   (look fs' (comps (mirror_root root (snd a))) sk))
           \<and> (\<forall>d' \<in> D. \<forall>s. look fs' (comps d') s = look fs (comps d') s
                 \<or> (s \<in> set skills
                      \<and> \<not> settled_node (expected root d' s) (look fs (comps d') s)
                      \<and> look fs' (comps d') s = Some (Link (expected root d' s))))
           \<and> (\<forall>a \<in> set ags. \<forall>sk \<in> set skills.
                 length (join [mirror_root root (snd a), sk]) < PATH_MAX)"
  using assms(4,5,6)
proof (induction ags arbitrary: result fs)
  case Nil
  then show ?case by simp
next
  case (Cons a ags)
  obtain name cfg where a: "a = (name, cfg)" by (cases a)
  let ?d = "mirror_root root cfg"
  have dD: "?d \<in> D" and rest: "\<forall>a \<in> set ags. mirror_root root (snd a) \<in> D"
    using Cons.prems(1) a by simp_all
  from Cons.prems(3) a obtain r1 fs1 where
    b: "sync_skills root False name ?d skills result fs = (Inr r1, fs1)" and
    l: "sync_agents root False skills ags r1 fs1 = (Inr r', fs')"
    by (auto simp: Let_def mirror_root_def split: prod.splits sum.splits)
  from sync_skills_plain[OF assms(1,2) dD assms(3) Cons.prems(2) b] have
    p1: "\<forall>d' \<in> D. plain fs1 (comps d')" and
    s1: "\<forall>sk \<in> set skills. settled_node (expected root ?d sk) (look fs1 (comps ?d) sk)" and
    f1: "\<forall>d' \<in> D. \<forall>s. look fs1 (comps d') s = look fs (comps d') s
                 \<or> (comps d' = comps ?d \<and> s \<in> set skills
                      \<and> \<not> settled_node (expected root ?d s) (look fs (comps ?d) s)
                      \<and> look fs1 (comps d') s = Some (Link (expected root ?d s)))" and
    len1: "\<forall>sk \<in> set skills. length (join [?d, sk]) < PATH_MAX"
    by blast+
  from Cons.IH[OF rest p1 l] have
    p': "\<forall>d' \<in> D. plain fs' (comps d')" and
    s': "\<forall>a \<in> set ags. \<forall>sk \<in> set skills.
                 settled_node (expected root (mirror_root root (snd a)) sk)
                   (look fs' (comps (mirror_root root (snd a))) sk)" and
    f': "\<forall>d' \<in> D. \<forall>s. look fs' (comps d') s = look fs1 (comps d') s
                 \<or> (s \<in> set skills
                      \<and> \<not> settled_node (expected root d' s) (look fs1 (comps d') s)
                      \<and> look fs' (comps d') s = Some (Link (expected root d' s)))" and
    len': "\<forall>a \<in> set ags. \<forall>sk \<in> set skills.
                 length (join [mirror_root root (snd a), sk]) < PATH_MAX"
    by blast+
  have keep: "look fs' (comps ?d) sk = look fs1 (comps ?d) sk" if "sk \<in> set skills" for sk
    using f'[rule_format, OF dD, of sk] s1 that by auto
  have own: "\<forall>a' \<in> set (a # ags). \<forall>sk \<in> set skills.
                 settled_node (expected root (mirror_root root (snd a')) sk)
                   (look fs' (comps (mirror_root root (snd a'))) sk)"
    using s' s1 keep a by simp
  have frame: "look fs' (comps d') s = look fs (comps d') s
                 \<or> (s \<in> set skills
                      \<and> \<not> settled_node (expected root d' s) (look fs (comps d') s)
                      \<and> look fs' (comps d') s = Some (Link (expected root d' s)))"
    if d': "d' \<in> D" for d' s
  proof -
    from f1[rule_format, OF d', of s] show ?thesis
    proof
      assume same1: "look fs1 (comps d') s = look fs (comps d') s"
      from f'[rule_format, OF d', of s] show ?thesis using same1 by auto
    next
      assume ch: "comps d' = comps ?d \<and> s \<in> set skills
                      \<and> \<not> settled_node (expected root ?d s) (look fs (comps ?d) s)
                      \<and> look fs1 (comps d') s = Some (Link (expected root ?d s))"
      then have c1: "comps d' = comps ?d" "s \<in> set skills"
          "\<not> settled_node (expected root ?d s) (look fs (comps ?d) s)"
          "look fs1 (comps d') s = Some (Link (expected root ?d s))"
        by blast+
      have e: "expected root d' s = expected root ?d s" using c1(1) by (rule expected_comps)
      have "settled_node (expected root d' s) (look fs1 (comps d') s)"
        using c1(4) e by (simp add: settled_node_def)
      then have "look fs' (comps d') s = look fs1 (comps d') s"
        using f'[rule_format, OF d', of s] by blast
      then show ?thesis using c1 e by simp
    qed
  qed
  show ?case
  proof (intro conjI)
    show "\<forall>d' \<in> D. plain fs' (comps d')" by (rule p')
    show "\<forall>a' \<in> set (a # ags). \<forall>sk \<in> set skills.
                 settled_node (expected root (mirror_root root (snd a')) sk)
                   (look fs' (comps (mirror_root root (snd a'))) sk)"
      by (rule own)
    show "\<forall>d' \<in> D. \<forall>s. look fs' (comps d') s = look fs (comps d') s
                 \<or> (s \<in> set skills
                      \<and> \<not> settled_node (expected root d' s) (look fs (comps d') s)
                      \<and> look fs' (comps d') s = Some (Link (expected root d' s)))"
      using frame by blast
    show "\<forall>a' \<in> set (a # ags). \<forall>sk \<in> set skills.
                 length (join [mirror_root root (snd a'), sk]) < PATH_MAX"
      using len1 len' a by simp
  qed
qed

lemma isSymlink_plain:
  assumes "plain fs (comps d)" and "plain_path d" and "valid_name sk"
      and "length (join [d, sk]) < PATH_MAX" and "look fs (comps d) sk = Some n"
  shows "isSymlink fs (join [d, sk]) = isSymbolicLink n"
  using lstat_plain_some[OF assms] by (simp add: isSymlink_def)

lemma sync_skills_report:
  assumes "\<forall>d' \<in> D. plain_path d'" and "separated D" and "d \<in> D"
      and "\<forall>sk \<in> set sks. valid_name sk" and "\<forall>d' \<in> D. plain fs (comps d')"
      and "sync_skills root False name d sks result fs = (Inr r', fs')"
  shows "(\<forall>e \<in> set (created r'). e \<in> set (created result)
            \<or> (\<exists>sk \<in> set sks. e = mk_entry root name d sk
                  \<and> \<not> settled_node (expected root d sk) (look fs (comps d) sk)))
       \<and> (\<forall>sk \<in> set sks. \<forall>n. look fs (comps d) sk = Some n
              \<longrightarrow> settled_node (expected root d sk) (Some n)
              \<longrightarrow> (mk_entry root name d sk)\<lparr>reason := Some (skip_reason n)\<rparr> \<in> set (skipped r'))
       \<and> set (skipped result) \<subseteq> set (skipped r')"
  using assms(4,5,6)
proof (induction sks arbitrary: result fs)
  case Nil
  then show ?case by simp
next
  case (Cons sk sks)
  have vn: "valid_name sk" and vns: "\<forall>sk \<in> set sks. valid_name sk"
    using Cons.prems(1) by simp_all
  have pd: "plain_path d" and pl: "plain fs (comps d)" using assms(1,3) Cons.prems(2) by auto
  let ?set0 = "settled_node (expected root d sk) (look fs (comps d) sk)"
  let ?r1 = "if ?set0
             then result\<lparr>skipped := skipped result @
                    [(mk_entry root name d sk)\<lparr>reason := Some
                       (if isSymlink fs (join [d, sk]) then ''already linked''
                        else ''real directory exists, skipping'')\<rparr>]\<rparr>
             else result\<lparr>created := created result @ [mk_entry root name d sk]\<rparr>"
  from Cons.prems(3) obtain r1 fs1 where
    b0: "sync_body root False name d sk result fs = (Inr r1, fs1)" and
    l0: "sync_skills root False name d sks r1 fs1 = (Inr r', fs')"
    by (auto split: prod.splits sum.splits)
  from sync_body_step[OF assms(1,2,3) vn Cons.prems(2) b0] have
    p1: "\<forall>d' \<in> D. plain fs1 (comps d')" and
    f1: "\<forall>d' \<in> D. \<forall>s. look fs1 (comps d') s = look fs (comps d') s
                 \<or> (comps d' = comps d \<and> s = sk
                      \<and> \<not> settled_node (expected root d sk) (look fs (comps d) sk)
                      \<and> look fs1 (comps d') s = Some (Link (expected root d sk)))" and
    r1: "r1 = ?r1"
    by blast+
  note len = sync_body_len[OF b0]
  have b: "sync_body root False name d sk result fs = (Inr ?r1, fs1)" using b0 r1 by simp
  have l: "sync_skills root False name d sks ?r1 fs1 = (Inr r', fs')"
    using l0 r1 by simp
  note ih = Cons.IH[OF vns p1 l]
  have ih1: "\<forall>e \<in> set (created r'). e \<in> set (created ?r1)
            \<or> (\<exists>s \<in> set sks. e = mk_entry root name d s
                  \<and> \<not> settled_node (expected root d s) (look fs1 (comps d) s))"
    using ih by blast
  have ih2: "\<forall>s \<in> set sks. \<forall>n. look fs1 (comps d) s = Some n
              \<longrightarrow> settled_node (expected root d s) (Some n)
              \<longrightarrow> (mk_entry root name d s)\<lparr>reason := Some (skip_reason n)\<rparr> \<in> set (skipped r')"
    using ih by blast
  have ih3: "set (skipped ?r1) \<subseteq> set (skipped r')"
    using ih by blast
  have unsettled_back: "\<not> settled_node (expected root d s) (look fs (comps d) s)"
    if "\<not> settled_node (expected root d s) (look fs1 (comps d) s)" for s
  proof -
    from f1[rule_format, OF assms(3), of s] show ?thesis
    proof
      assume "look fs1 (comps d) s = look fs (comps d) s"
      then show ?thesis using that by simp
    next
      assume "comps d = comps d \<and> s = sk
                      \<and> \<not> settled_node (expected root d sk) (look fs (comps d) sk)
                      \<and> look fs1 (comps d) s = Some (Link (expected root d sk))"
      then have "s = sk" "look fs1 (comps d) s = Some (Link (expected root d sk))" by blast+
      then show ?thesis using that by (simp add: settled_node_def)
    qed
  qed
  have c: "e \<in> set (created result)
            \<or> (\<exists>s \<in> set (sk # sks). e = mk_entry root name d s
                  \<and> \<not> settled_node (expected root d s) (look fs (comps d) s))"
    if e: "e \<in> set (created r')" for e
  proof -
    from ih1 e have "e \<in> set (created ?r1)
            \<or> (\<exists>s \<in> set sks. e = mk_entry root name d s
                  \<and> \<not> settled_node (expected root d s) (look fs1 (comps d) s))" by blast
    then show ?thesis
    proof
      assume "e \<in> set (created ?r1)"
      then show ?thesis by (cases ?set0) auto
    next
      assume "\<exists>s \<in> set sks. e = mk_entry root name d s
                  \<and> \<not> settled_node (expected root d s) (look fs1 (comps d) s)"
      then obtain s where "s \<in> set sks" "e = mk_entry root name d s"
         "\<not> settled_node (expected root d s) (look fs1 (comps d) s)" by blast
      then show ?thesis using unsettled_back[of s] by auto
    qed
  qed
  have s: "(mk_entry root name d s)\<lparr>reason := Some (skip_reason n)\<rparr> \<in> set (skipped r')"
    if s: "s \<in> set (sk # sks)" and n: "look fs (comps d) s = Some n"
      and st: "settled_node (expected root d s) (Some n)" for s n
  proof (cases "s = sk")
    case True
    then have set0: ?set0 using n st by simp
    have "isSymlink fs (join [d, sk]) = isSymbolicLink n"
      using isSymlink_plain[OF pl pd vn len] n True by simp
    then have "(mk_entry root name d sk)\<lparr>reason := Some (skip_reason n)\<rparr> \<in> set (skipped ?r1)"
      using set0 by (simp add: skip_reason_def)
    then show ?thesis using ih3 True by blast
  next
    case False
    then have "s \<in> set sks" using s by simp
    moreover have "look fs1 (comps d) s = look fs (comps d) s"
      using f1[rule_format, OF assms(3), of s] False by blast
    ultimately show ?thesis using ih2 n st by simp
  qed
  have m: "set (skipped result) \<subseteq> set (skipped r')"
  proof -
    have "set (skipped result) \<subseteq> set (skipped ?r1)" by (cases ?set0) auto
    then show ?thesis using ih3 by blast
  qed
  show ?case
  proof (intro conjI ballI allI impI)
    fix e assume "e \<in> set (created r')"
    then show "e \<in> set (created result)
            \<or> (\<exists>s \<in> set (sk # sks). e = mk_entry root name d s
                  \<and> \<not> settled_node (expected root d s) (look fs (comps d) s))"
      by (rule c)
  next
    fix s n assume "s \<in> set (sk # sks)" "look fs (comps d) s = Some n"
      "settled_node (expected root d s) (Some n)"
    then show "(mk_entry root name d s)\<lparr>reason := Some (skip_reason n)\<rparr> \<in> set (skipped r')"
      by (rule s)
  next
    show "set (skipped result) \<subseteq> set (skipped r')" by (rule m)
  qed
qed

lemma sync_agents_report:
  assumes "\<forall>d' \<in> D. plain_path d'" and "separated D"
      and "\<forall>sk \<in> set skills. valid_name sk"
      and "\<forall>a \<in> set ags. mirror_root root (snd a) \<in> D"
      and "\<forall>d' \<in> D. plain fs (comps d')"
      and "sync_agents root False skills ags result fs = (Inr r', fs')"
  shows "(\<forall>e \<in> set (created r'). e \<in> set (created result)
            \<or> (\<exists>a \<in> set ags. \<exists>sk \<in> set skills.
                  e = mk_entry root (fst a) (mirror_root root (snd a)) sk
                  \<and> \<not> settled_node (expected root (mirror_root root (snd a)) sk)
                        (look fs (comps (mirror_root root (snd a))) sk)))
       \<and> (\<forall>a \<in> set ags. \<forall>sk \<in> set skills. \<forall>n.
              look fs (comps (mirror_root root (snd a))) sk = Some n
              \<longrightarrow> settled_node (expected root (mirror_root root (snd a)) sk) (Some n)
              \<longrightarrow> (mk_entry root (fst a) (mirror_root root (snd a)) sk)\<lparr>reason := Some (skip_reason n)\<rparr>
                    \<in> set (skipped r'))
       \<and> set (skipped result) \<subseteq> set (skipped r')"
  using assms(4,5,6)
proof (induction ags arbitrary: result fs)
  case Nil
  then show ?case by simp
next
  case (Cons a ags)
  obtain name cfg where a: "a = (name, cfg)" by (cases a)
  let ?d = "mirror_root root cfg"
  have dD: "?d \<in> D" and rest: "\<forall>a \<in> set ags. mirror_root root (snd a) \<in> D"
    using Cons.prems(1) a by simp_all
  from Cons.prems(3) a obtain r1 fs1 where
    b: "sync_skills root False name ?d skills result fs = (Inr r1, fs1)" and
    l: "sync_agents root False skills ags r1 fs1 = (Inr r', fs')"
    by (auto simp: Let_def mirror_root_def split: prod.splits sum.splits)
  from sync_skills_plain[OF assms(1,2) dD assms(3) Cons.prems(2) b] have
    p1: "\<forall>d' \<in> D. plain fs1 (comps d')" and
    f1: "\<forall>d' \<in> D. \<forall>s. look fs1 (comps d') s = look fs (comps d') s
                 \<or> (comps d' = comps ?d \<and> s \<in> set skills
                      \<and> \<not> settled_node (expected root ?d s) (look fs (comps ?d) s)
                      \<and> look fs1 (comps d') s = Some (Link (expected root ?d s)))"
    by blast+
  note inner = sync_skills_report[OF assms(1,2) dD assms(3) Cons.prems(2) b]
  have in1: "\<forall>e \<in> set (created r1). e \<in> set (created result)
            \<or> (\<exists>sk \<in> set skills. e = mk_entry root name ?d sk
                  \<and> \<not> settled_node (expected root ?d sk) (look fs (comps ?d) sk))"
    using inner by blast
  have in2: "\<forall>sk \<in> set skills. \<forall>n. look fs (comps ?d) sk = Some n
              \<longrightarrow> settled_node (expected root ?d sk) (Some n)
              \<longrightarrow> (mk_entry root name ?d sk)\<lparr>reason := Some (skip_reason n)\<rparr> \<in> set (skipped r1)"
    using inner by blast
  have in3: "set (skipped result) \<subseteq> set (skipped r1)"
    using inner by blast
  note ih = Cons.IH[OF rest p1 l]
  have ih1: "\<forall>e \<in> set (created r'). e \<in> set (created r1)
            \<or> (\<exists>a \<in> set ags. \<exists>sk \<in> set skills.
                  e = mk_entry root (fst a) (mirror_root root (snd a)) sk
                  \<and> \<not> settled_node (expected root (mirror_root root (snd a)) sk)
                        (look fs1 (comps (mirror_root root (snd a))) sk))"
    using ih by blast
  have ih2: "\<forall>a \<in> set ags. \<forall>sk \<in> set skills. \<forall>n.
              look fs1 (comps (mirror_root root (snd a))) sk = Some n
              \<longrightarrow> settled_node (expected root (mirror_root root (snd a)) sk) (Some n)
              \<longrightarrow> (mk_entry root (fst a) (mirror_root root (snd a)) sk)\<lparr>reason := Some (skip_reason n)\<rparr>
                    \<in> set (skipped r')"
    using ih by blast
  have ih3: "set (skipped r1) \<subseteq> set (skipped r')"
    using ih by blast
  have same_or_settled:
    "look fs1 (comps d') s = look fs (comps d') s
       \<or> (\<not> settled_node (expected root d' s) (look fs (comps d') s)
            \<and> settled_node (expected root d' s) (look fs1 (comps d') s))"
    if d': "d' \<in> D" for d' s
  proof -
    from f1[rule_format, OF d', of s] show ?thesis
    proof
      assume "look fs1 (comps d') s = look fs (comps d') s"
      then show ?thesis by simp
    next
      assume "comps d' = comps ?d \<and> s \<in> set skills
                      \<and> \<not> settled_node (expected root ?d s) (look fs (comps ?d) s)
                      \<and> look fs1 (comps d') s = Some (Link (expected root ?d s))"
      then have c1: "comps d' = comps ?d"
          "\<not> settled_node (expected root ?d s) (look fs (comps ?d) s)"
          "look fs1 (comps d') s = Some (Link (expected root ?d s))"
        by blast+
      have e: "expected root d' s = expected root ?d s" using c1(1) by (rule expected_comps)
      show ?thesis using c1 e by (simp add: settled_node_def)
    qed
  qed
  have c: "e \<in> set (created result)
            \<or> (\<exists>a' \<in> set (a # ags). \<exists>sk \<in> set skills.
                  e = mk_entry root (fst a') (mirror_root root (snd a')) sk
                  \<and> \<not> settled_node (expected root (mirror_root root (snd a')) sk)
                        (look fs (comps (mirror_root root (snd a'))) sk))"
    if e: "e \<in> set (created r')" for e
  proof -
    from ih1 e have "e \<in> set (created r1)
            \<or> (\<exists>a \<in> set ags. \<exists>sk \<in> set skills.
                  e = mk_entry root (fst a) (mirror_root root (snd a)) sk
                  \<and> \<not> settled_node (expected root (mirror_root root (snd a)) sk)
                        (look fs1 (comps (mirror_root root (snd a))) sk))" by blast
    then show ?thesis
    proof
      assume "e \<in> set (created r1)"
      then show ?thesis using in1 a by auto
    next
      assume "\<exists>a \<in> set ags. \<exists>sk \<in> set skills.
                  e = mk_entry root (fst a) (mirror_root root (snd a)) sk
                  \<and> \<not> settled_node (expected root (mirror_root root (snd a)) sk)
                        (look fs1 (comps (mirror_root root (snd a))) sk)"
      then obtain a' sk where a': "a' \<in> set ags" "sk \<in> set skills"
        "e = mk_entry root (fst a') (mirror_root root (snd a')) sk"
        "\<not> settled_node (expected root (mirror_root root (snd a')) sk)
                        (look fs1 (comps (mirror_root root (snd a'))) sk)" by blast
      have "mirror_root root (snd a') \<in> D" using rest a'(1) by simp
      from same_or_settled[OF this, of sk] a'(4)
      have "\<not> settled_node (expected root (mirror_root root (snd a')) sk)
                        (look fs (comps (mirror_root root (snd a'))) sk)" by auto
      then show ?thesis using a' by auto
    qed
  qed
  have s: "(mk_entry root (fst a') (mirror_root root (snd a')) sk)\<lparr>reason := Some (skip_reason n)\<rparr>
             \<in> set (skipped r')"
    if a': "a' \<in> set (a # ags)" and sk: "sk \<in> set skills"
      and n: "look fs (comps (mirror_root root (snd a'))) sk = Some n"
      and st: "settled_node (expected root (mirror_root root (snd a')) sk) (Some n)" for a' sk n
  proof (cases "a' = a")
    case True
    then show ?thesis using in2 ih3 a sk n st by auto
  next
    case False
    then have mem: "a' \<in> set ags" using a' by simp
    then have "mirror_root root (snd a') \<in> D" using rest by simp
    from same_or_settled[OF this, of sk] n st
    have "look fs1 (comps (mirror_root root (snd a'))) sk = Some n" by auto
    then show ?thesis using ih2 mem sk st by blast
  qed
  show ?case
  proof (intro conjI ballI allI impI)
    fix e assume "e \<in> set (created r')"
    then show "e \<in> set (created result)
            \<or> (\<exists>a' \<in> set (a # ags). \<exists>sk \<in> set skills.
                  e = mk_entry root (fst a') (mirror_root root (snd a')) sk
                  \<and> \<not> settled_node (expected root (mirror_root root (snd a')) sk)
                        (look fs (comps (mirror_root root (snd a'))) sk))"
      by (rule c)
  next
    fix a' sk n assume "a' \<in> set (a # ags)" "sk \<in> set skills"
      "look fs (comps (mirror_root root (snd a'))) sk = Some n"
      "settled_node (expected root (mirror_root root (snd a')) sk) (Some n)"
    then show "(mk_entry root (fst a') (mirror_root root (snd a')) sk)\<lparr>reason := Some (skip_reason n)\<rparr>
             \<in> set (skipped r')"
      by (rule s)
  next
    show "set (skipped result) \<subseteq> set (skipped r')" using in3 ih3 by blast
  qed
qed

lemma sync_skills_settled:
  assumes "plain fs (comps d)" and "plain_path d" and "\<forall>sk \<in> set sks. valid_name sk"
      and "\<forall>sk \<in> set sks. settled_node (expected root d sk) (look fs (comps d) sk)"
      and "\<forall>sk \<in> set sks. length (join [d, sk]) < PATH_MAX"
  shows "sync_skills root dry name d sks result fs =
           (Inr (result\<lparr>skipped := skipped result @ map (skip_entry root fs name d) sks\<rparr>), fs)"
  using assms(3,4,5)
proof (induction sks arbitrary: result)
  case Nil
  then show ?case by simp
next
  case (Cons sk sks)
  have "sync_body root dry name d sk result fs =
          (Inr (result\<lparr>skipped := skipped result @ [skip_entry root fs name d sk]\<rparr>), fs)"
    using sync_body_plain_settled[OF assms(1,2), of sk root dry name result] Cons.prems
    by (simp add: expected_def skip_entry_def)
  then show ?case using Cons by simp
qed

lemma sync_agents_settled:
  assumes "\<forall>a \<in> set ags. plain fs (comps (mirror_root root (snd a))) \<and> plain_path (mirror_root root (snd a))"
      and "\<forall>sk \<in> set skills. valid_name sk"
      and "\<forall>a \<in> set ags. \<forall>sk \<in> set skills.
             settled_node (expected root (mirror_root root (snd a)) sk)
               (look fs (comps (mirror_root root (snd a))) sk)"
      and "\<forall>a \<in> set ags. \<forall>sk \<in> set skills.
             length (join [mirror_root root (snd a), sk]) < PATH_MAX"
  shows "sync_agents root dry skills ags result fs =
           (Inr (result\<lparr>skipped := skipped result @
              concat (map (\<lambda>a. map (skip_entry root fs (fst a) (mirror_root root (snd a))) skills) ags)\<rparr>),
            fs)"
  using assms(1,3,4)
proof (induction ags arbitrary: result)
  case Nil
  then show ?case by simp
next
  case (Cons a ags)
  obtain name cfg where a: "a = (name, cfg)" by (cases a)
  have "sync_skills root dry name (mirror_root root cfg) skills result fs =
           (Inr (result\<lparr>skipped := skipped result @
               map (skip_entry root fs name (mirror_root root cfg)) skills\<rparr>), fs)"
    using sync_skills_settled[of fs "mirror_root root cfg" skills root dry name result]
      Cons.prems a assms(2) by simp
  then show ?case using Cons a by (simp add: mirror_root_def)
qed

lemma status_body_settled:
  assumes "plain fs (comps d)" and "plain_path d" and "valid_name sk"
      and "settled_node (expected root d sk) (look fs (comps d) sk)"
      and "length (join [d, sk]) < PATH_MAX"
  shows "status_body root d fs sk (lnk, unl, wrg) = Inr (lnk @ [sk], unl, wrg)"
proof -
  from assms(4) obtain n where lk: "look fs (comps d) sk = Some n"
    by (cases "look fs (comps d) sk") (auto simp: settled_node_def)
  then have ls: "lstatSync fs (join [d, sk]) = Inr n"
    using lstat_plain_some[OF assms(1,2,3,5)] by simp
  show ?thesis
  proof (cases "isSymbolicLink n")
    case True
    then obtain x where n: "n = Link x" by (cases n) (auto simp: isSymbolicLink_def)
    then have "x = expected root d sk" using assms(4) lk by (simp add: settled_node_def)
    then show ?thesis using ls n
      by (simp add: status_body_def isSymlink_def isSymbolicLink_def readlinkSync_def expected_def)
  next
    case False
    have "existsSync fs (join [d, sk])"
      using lstat_real_stat[OF ls False] by (simp add: existsSync_def)
    then show ?thesis using ls False
      by (simp add: status_body_def isSymlink_def)
  qed
qed

lemma status_skills_settled:
  assumes "plain fs (comps d)" and "plain_path d" and "\<forall>sk \<in> set sks. valid_name sk"
      and "\<forall>sk \<in> set sks. settled_node (expected root d sk) (look fs (comps d) sk)"
      and "\<forall>sk \<in> set sks. length (join [d, sk]) < PATH_MAX"
  shows "status_skills root d fs sks (lnk, unl, wrg) = Inr (lnk @ sks, unl, wrg)"
  using assms(3,4,5)
proof (induction sks arbitrary: lnk)
  case Nil
  then show ?case by simp
next
  case (Cons sk sks)
  have "status_body root d fs sk (lnk, unl, wrg) = Inr (lnk @ [sk], unl, wrg)"
    using status_body_settled[OF assms(1,2)] Cons.prems by simp
  then show ?case using Cons by simp
qed

lemma status_agents_settled:
  assumes "\<forall>a \<in> set ags. plain fs (comps (mirror_root root (snd a))) \<and> plain_path (mirror_root root (snd a))"
      and "\<forall>sk \<in> set skills. valid_name sk"
      and "\<forall>a \<in> set ags. \<forall>sk \<in> set skills.
             settled_node (expected root (mirror_root root (snd a)) sk)
               (look fs (comps (mirror_root root (snd a))) sk)"
      and "\<forall>a \<in> set ags. \<forall>sk \<in> set skills.
             length (join [mirror_root root (snd a), sk]) < PATH_MAX"
  shows "status_agents root fs skills ags sts = Inr (sts @ map (all_linked skills) ags)"
  using assms(1,3,4)
proof (induction ags arbitrary: sts)
  case Nil
  then show ?case by simp
next
  case (Cons a ags)
  obtain name cfg where a: "a = (name, cfg)" by (cases a)
  have "status_skills root (mirror_root root cfg) fs skills ([], [], []) = Inr ([] @ skills, [], [])"
    using status_skills_settled[of fs "mirror_root root cfg" skills root "[]" "[]" "[]"]
      Cons.prems a assms(2) by simp
  then show ?case using Cons a by (simp add: mirror_root_def all_linked_def)
qed

lemma plain_mirrors_ctx:
  assumes "plain_mirrors fs root options"
  shows "\<forall>d' \<in> set (mirror_roots root options). plain_path d'"
    and "separated (set (mirror_roots root options))"
    and "\<forall>a \<in> set (targetAgents options). mirror_root root (snd a) \<in> set (mirror_roots root options)"
    and "\<forall>d' \<in> set (mirror_roots root options). plain fs (comps d')"
  using assms by (auto simp: plain_mirrors_def separated_def mirror_roots_def)

lemma syncSkills_plain:
  assumes "plain_mirrors fs root options"
      and "discoverSkills fs root = Inr skills" and "\<forall>sk \<in> set skills. valid_name sk"
      and "\<not> dryRun options"
      and "syncSkills root options fs = (Inr r, fs1)"
  shows "\<forall>d' \<in> set (mirror_roots root options). plain fs1 (comps d')"
    and "\<forall>a \<in> set (targetAgents options). \<forall>sk \<in> set skills.
           settled_node (expected root (mirror_root root (snd a)) sk)
             (look fs1 (comps (mirror_root root (snd a))) sk)"
    and "\<forall>d' \<in> set (mirror_roots root options). \<forall>s. look fs1 (comps d') s = look fs (comps d') s
           \<or> (s \<in> set skills
                \<and> \<not> settled_node (expected root d' s) (look fs (comps d') s)
                \<and> look fs1 (comps d') s = Some (Link (expected root d' s)))"
    and "\<forall>e \<in> set (created r). \<exists>a \<in> set (targetAgents options). \<exists>sk \<in> set skills.
           e = mk_entry root (fst a) (mirror_root root (snd a)) sk
           \<and> \<not> settled_node (expected root (mirror_root root (snd a)) sk)
                 (look fs (comps (mirror_root root (snd a))) sk)"
    and "\<forall>a \<in> set (targetAgents options). \<forall>sk \<in> set skills. \<forall>n.
           look fs (comps (mirror_root root (snd a))) sk = Some n
           \<longrightarrow> settled_node (expected root (mirror_root root (snd a)) sk) (Some n)
           \<longrightarrow> (mk_entry root (fst a) (mirror_root root (snd a)) sk)\<lparr>reason := Some (skip_reason n)\<rparr>
                 \<in> set (skipped r)"
    and "\<forall>a \<in> set (targetAgents options). \<forall>sk \<in> set skills.
           length (join [mirror_root root (snd a), sk]) < PATH_MAX"
proof -
  note ctx = plain_mirrors_ctx[OF assms(1)]
  have run: "sync_agents root False skills (targetAgents options) emptyResult fs = (Inr r, fs1)"
    using assms(2,4,5) by (simp add: syncSkills_def)
  from sync_agents_plain[OF ctx(1,2) assms(3) ctx(3,4) run]
  show "\<forall>d' \<in> set (mirror_roots root options). plain fs1 (comps d')"
    and "\<forall>a \<in> set (targetAgents options). \<forall>sk \<in> set skills.
           settled_node (expected root (mirror_root root (snd a)) sk)
             (look fs1 (comps (mirror_root root (snd a))) sk)"
    and "\<forall>d' \<in> set (mirror_roots root options). \<forall>s. look fs1 (comps d') s = look fs (comps d') s
           \<or> (s \<in> set skills
                \<and> \<not> settled_node (expected root d' s) (look fs (comps d') s)
                \<and> look fs1 (comps d') s = Some (Link (expected root d' s)))"
    and "\<forall>a \<in> set (targetAgents options). \<forall>sk \<in> set skills.
           length (join [mirror_root root (snd a), sk]) < PATH_MAX"
    by blast+
  from sync_agents_report[OF ctx(1,2) assms(3) ctx(3,4) run]
  show "\<forall>e \<in> set (created r). \<exists>a \<in> set (targetAgents options). \<exists>sk \<in> set skills.
           e = mk_entry root (fst a) (mirror_root root (snd a)) sk
           \<and> \<not> settled_node (expected root (mirror_root root (snd a)) sk)
                 (look fs (comps (mirror_root root (snd a))) sk)"
    and "\<forall>a \<in> set (targetAgents options). \<forall>sk \<in> set skills. \<forall>n.
           look fs (comps (mirror_root root (snd a))) sk = Some n
           \<longrightarrow> settled_node (expected root (mirror_root root (snd a)) sk) (Some n)
           \<longrightarrow> (mk_entry root (fst a) (mirror_root root (snd a)) sk)\<lparr>reason := Some (skip_reason n)\<rparr>
                 \<in> set (skipped r)"
    by (auto simp: emptyResult_def)
qed



section \<open>Real entries are never removed\<close>

text \<open>
  Every write of \<open>syncSkills\<close> lands on a location that holds nothing or a
  symbolic link: \<^verbatim>\<open>unlinkSync\<close> is only called after \<^verbatim>\<open>lstat\<close> has answered
  ``symbolic link'', \<^verbatim>\<open>symlinkSync\<close> and \<^verbatim>\<open>mkdirSync\<close> only fill absent
  locations. No hypothesis on the state or on the configuration is needed.
\<close>

lemma olc_refl: "only_links_change fs fs"
  by (simp add: only_links_change_def)

lemma olc_trans:
  assumes "only_links_change fs fs1" and "only_links_change fs1 fs2"
  shows "only_links_change fs fs2"
  unfolding only_links_change_def
proof
  fix l
  from assms(1) have a: "view fs1 l = view fs l \<or> free_spot (view fs l)"
    by (simp add: only_links_change_def)
  from assms(2) have b: "view fs2 l = view fs1 l \<or> free_spot (view fs1 l)"
    by (simp add: only_links_change_def)
  show "view fs2 l = view fs l \<or> free_spot (view fs l)"
    using a b by auto
qed

lemma olc_put:
  assumes "leafy v" and "get fs l = None \<or> (\<exists>d. get fs l = Some (Link d))"
  shows "only_links_change fs (put l v fs)"
  unfolding only_links_change_def
proof
  fix l'
  have leaf: "is_leaf (get fs l)" using assms(2) by (auto simp: is_leaf_def)
  have fr: "free_spot (view fs l)" using assms(2) by (auto simp: free_spot_def view_def)
  from view_put[OF assms(1) leaf, of l']
  show "view (put l v fs) l' = view fs l' \<or> free_spot (view fs l')"
    using fr by auto
qed

lemma olc_unlink:
  assumes "lstatSync fs p = Inr (Link d)" and "unlinkSync fs p = Inr fs'"
  shows "only_links_change fs fs'"
proof -
  from assms(2) have nd: "\<not> dir_wanted p"
    by (auto simp: unlinkSync_def split: sum.splits option.splits node.splits if_splits)
  then have "locate fs False p = path_walk fs False p" by (simp add: locate_def)
  with assms(1) obtain l where l: "path_walk fs False p = Inr l" and g: "get fs l = Some (Link d)"
    by (auto simp: lstatSync_def split: sum.splits option.splits)
  then have "fs' = put l None fs" using assms(2) nd by (simp add: unlinkSync_def)
  then show ?thesis using olc_put[of None fs l] g by (simp add: leafy_def)
qed

lemma olc_symlink:
  assumes "symlinkSync fs x p = Inr fs'"
  shows "only_links_change fs fs'"
proof -
  from assms obtain l where "get fs l = None" and "fs' = put l (Some (Link x)) fs"
    by (auto simp: symlinkSync_def split: sum.splits option.splits if_splits)
  then show ?thesis using olc_put[of "Some (Link x)" fs l] by (simp add: leafy_def)
qed

lemma olc_ensure_dir:
  assumes "ensure_dir fs cs = Inr fs'"
  shows "only_links_change fs fs'"
proof -
  from assms have "fs' = fs \<or> (\<exists>l. get fs l = None \<and> fs' = put l (Some (Dir True [])) fs)"
    by (auto simp: ensure_dir_def split: sum.splits option.splits node.splits)
  then show ?thesis using olc_put[of "Some (Dir True [])" fs] olc_refl
    by (auto simp: leafy_def)
qed

lemma olc_mkdir_from:
  "mkdir_from fs done cs = Inr fs' \<Longrightarrow> only_links_change fs fs'"
proof (induction cs arbitrary: fs "done")
  case Nil
  then show ?case by (simp add: olc_refl)
next
  case (Cons c cs)
  from Cons.prems obtain fs1 where e: "ensure_dir fs (done @ [c]) = Inr fs1"
    and m: "mkdir_from fs1 (done @ [c]) cs = Inr fs'"
    by (auto split: sum.splits)
  from olc_trans[OF olc_ensure_dir[OF e] Cons.IH[OF m]] show ?case .
qed

lemma olc_sync_create:
  assumes "sync_create dry d src tgt entry result fs = (res, fs')"
  shows "only_links_change fs fs'"
proof (cases dry)
  case True
  then show ?thesis using assms by (simp add: sync_create_def olc_refl)
next
  case False
  show ?thesis
  proof (cases "mkdirSync fs d")
    case (Inl e)
    then show ?thesis using assms False by (simp add: sync_create_def olc_refl)
  next
    case (Inr fs1)
    then have 1: "only_links_change fs fs1"
      by (auto simp: mkdirSync_def olc_mkdir_from split: if_splits)
    show ?thesis
    proof (cases "symlinkSync fs1 (relative d src) tgt")
      case (Inl e)
      then show ?thesis using assms False Inr 1 by (simp add: sync_create_def)
    next
      case (Inr fs2)
      then have "only_links_change fs1 fs2" by (rule olc_symlink)
      then show ?thesis using assms False \<open>mkdirSync fs d = Inr fs1\<close> Inr 1
        by (auto simp: sync_create_def intro: olc_trans)
    qed
  qed
qed

lemma olc_sync_body:
  assumes "sync_body root dry name d sk result fs = (res, fs')"
  shows "only_links_change fs fs'"
proof (cases "lstatSync fs (join [d, sk])")
  case (Inl e)
  from sync_body_absent[OF this, of root dry name result] assms
  have "sync_create dry d (join [root, CANONICAL_SOURCE, sk]) (join [d, sk])
          (mk_entry root name d sk) result fs = (res, fs')" by simp
  then show ?thesis by (rule olc_sync_create)
next
  case (Inr n)
  show ?thesis
  proof (cases "isSymbolicLink n")
    case False
    from sync_body_real[OF Inr False, of root dry name result] assms
    show ?thesis by (simp add: olc_refl)
  next
    case True
    then obtain x where n: "n = Link x" by (cases n) (auto simp: isSymbolicLink_def)
    note b = sync_body_link[OF Inr[unfolded n], of root dry name result]
    show ?thesis
    proof (cases "x = relative d (join [root, CANONICAL_SOURCE, sk])")
      case True
      then show ?thesis using b assms by (simp add: olc_refl)
    next
      case ne: False
      show ?thesis
      proof (cases dry)
        case True
        then have "sync_create dry d (join [root, CANONICAL_SOURCE, sk]) (join [d, sk])
                  (mk_entry root name d sk) result fs = (res, fs')"
          using b assms ne by simp
        then show ?thesis by (rule olc_sync_create)
      next
        case False
        show ?thesis
        proof (cases "unlinkSync fs (join [d, sk])")
          case (Inl e)
          then show ?thesis using b assms ne False by (simp add: olc_refl)
        next
          case (Inr fs0)
          have 1: "only_links_change fs fs0" using olc_unlink[OF \<open>lstatSync fs (join [d, sk]) = Inr n\<close>[unfolded n] Inr] .
          have "sync_create dry d (join [root, CANONICAL_SOURCE, sk]) (join [d, sk])
                  (mk_entry root name d sk) result fs0 = (res, fs')"
            using b assms ne False Inr by simp
          from olc_trans[OF 1 olc_sync_create[OF this]] show ?thesis .
        qed
      qed
    qed
  qed
qed

lemma olc_sync_skills:
  "sync_skills root dry name d sks result fs = (res, fs') \<Longrightarrow> only_links_change fs fs'"
proof (induction sks arbitrary: result fs)
  case Nil
  then show ?case by (simp add: olc_refl)
next
  case (Cons sk sks)
  obtain r1 fs1 where b: "sync_body root dry name d sk result fs = (r1, fs1)"
    by (cases "sync_body root dry name d sk result fs")
  note 1 = olc_sync_body[OF b]
  show ?case
  proof (cases r1)
    case (Inl e)
    then show ?thesis using Cons.prems b 1 by simp
  next
    case (Inr r)
    then have "sync_skills root dry name d sks r fs1 = (res, fs')" using Cons.prems b by simp
    from olc_trans[OF 1 Cons.IH[OF this]] show ?thesis .
  qed
qed

lemma olc_sync_agents:
  "sync_agents root dry skills ags result fs = (res, fs') \<Longrightarrow> only_links_change fs fs'"
proof (induction ags arbitrary: result fs)
  case Nil
  then show ?case by (simp add: olc_refl)
next
  case (Cons a ags)
  obtain name cfg where a: "a = (name, cfg)" by (cases a)
  obtain r1 fs1 where b: "sync_skills root dry name (join [root, skillsDir cfg]) skills result fs = (r1, fs1)"
    by (cases "sync_skills root dry name (join [root, skillsDir cfg]) skills result fs")
  note 1 = olc_sync_skills[OF b]
  show ?case
  proof (cases r1)
    case (Inl e)
    then show ?thesis using Cons.prems a b 1 by simp
  next
    case (Inr r)
    then have "sync_agents root dry skills ags r fs1 = (res, fs')" using Cons.prems a b by simp
    from olc_trans[OF 1 Cons.IH[OF this]] show ?thesis .
  qed
qed

lemma olc_syncSkills: "only_links_change fs (snd (syncSkills root options fs))"
proof (cases "discoverSkills fs root")
  case (Inl e)
  then show ?thesis by (simp add: syncSkills_def olc_refl)
next
  case (Inr skills)
  obtain res fs' where r: "sync_agents root (dryRun options) skills (targetAgents options) emptyResult fs = (res, fs')"
    by (cases "sync_agents root (dryRun options) skills (targetAgents options) emptyResult fs")
  from olc_sync_agents[OF r] show ?thesis using Inr r by (simp add: syncSkills_def)
qed


section \<open>Preview runs\<close>

text \<open>
  With \<open>dryRun\<close> set no branch of either loop body reaches \<^verbatim>\<open>unlinkSync\<close>,
  \<^verbatim>\<open>mkdirSync\<close> or \<^verbatim>\<open>symlinkSync\<close>: the state that comes out is the state that
  went in.
\<close>

lemma sync_create_dry: "snd (sync_create True d src tgt entry result fs) = fs"
  by (simp add: sync_create_def)

lemma sync_body_dry: "snd (sync_body root True name d sk result fs) = fs"
  by (simp add: sync_body_def sync_create_def Let_def split: sum.splits)

lemma sync_skills_dry: "snd (sync_skills root True name d sks result fs) = fs"
proof (induction sks arbitrary: result)
  case Nil
  then show ?case by simp
next
  case (Cons sk sks)
  obtain r1 fs1 where b: "sync_body root True name d sk result fs = (r1, fs1)"
    by (cases "sync_body root True name d sk result fs")
  then have "fs1 = fs" using sync_body_dry[of root name d sk result fs] by simp
  then show ?case using b Cons.IH by (cases r1) simp_all
qed

lemma sync_agents_dry: "snd (sync_agents root True skills ags result fs) = fs"
proof (induction ags arbitrary: result)
  case Nil
  then show ?case by simp
next
  case (Cons a ags)
  obtain name cfg where a: "a = (name, cfg)" by (cases a)
  obtain r1 fs1 where b: "sync_skills root True name (join [root, skillsDir cfg]) skills result fs = (r1, fs1)"
    by (cases "sync_skills root True name (join [root, skillsDir cfg]) skills result fs")
  then have "fs1 = fs" using sync_skills_dry[of root name "join [root, skillsDir cfg]" skills result fs] by simp
  then show ?case using a b Cons.IH by (cases r1) simp_all
qed

lemma syncSkills_dry: "dryRun options \<Longrightarrow> snd (syncSkills root options fs) = fs"
  by (cases "discoverSkills fs root") (simp_all add: syncSkills_def sync_agents_dry)

lemma clean_body_dry: "snd (clean_body root True name d nm result fs) = fs"
  by (simp add: clean_body_def Let_def split: sum.splits)

lemma clean_entries_dry: "snd (clean_entries root True name d names result fs) = fs"
proof (induction names arbitrary: result)
  case Nil
  then show ?case by simp
next
  case (Cons nm names)
  obtain r1 fs1 where b: "clean_body root True name d nm result fs = (r1, fs1)"
    by (cases "clean_body root True name d nm result fs")
  then have "fs1 = fs" using clean_body_dry[of root name d nm result fs] by simp
  then show ?case using b Cons.IH by (cases r1) simp_all
qed

lemma clean_agents_dry: "snd (clean_agents root True ags result fs) = fs"
proof (induction ags arbitrary: result)
  case Nil
  then show ?case by simp
next
  case (Cons a ags)
  obtain name cfg where a: "a = (name, cfg)" by (cases a)
  let ?d = "join [root, skillsDir cfg]"
  show ?case
  proof (cases "existsSync fs ?d")
    case False
    then show ?thesis using a Cons.IH by simp
  next
    case True
    show ?thesis
    proof (cases "readdirSync fs ?d")
      case (Inl e)
      then show ?thesis using a True by simp
    next
      case (Inr entries)
      obtain r1 fs1 where b: "clean_entries root True name ?d (map fst entries) result fs = (r1, fs1)"
        by (cases "clean_entries root True name ?d (map fst entries) result fs")
      then have "fs1 = fs" using clean_entries_dry[of root name ?d "map fst entries" result fs] by simp
      then show ?thesis using a True Inr b Cons.IH by (cases r1) simp_all
    qed
  qed
qed

lemma cleanSkills_dry: "dryRun options \<Longrightarrow> snd (cleanSkills root options fs) = fs"
  by (simp add: cleanSkills_def clean_agents_dry)

text \<open>
  A preview classifies every pair against the initial state, a real run
  against the state its earlier steps have left. Over plain mirror roots that
  are pairwise different and not nested, a step changes nothing that a later
  pair looks at, so both runs return the same report.
\<close>

lemma sync_body_modes:
  assumes "\<forall>d' \<in> D. plain_path d'" and "separated D" and "d \<in> D" and "valid_name sk"
      and "\<forall>d' \<in> D. plain fs (comps d')" and "plain fs0 (comps d)"
      and "look fs (comps d) sk = look fs0 (comps d) sk"
      and "sync_body root False name d sk result fs = (Inr r', fs')"
  shows "sync_body root True name d sk result fs0 = (Inr r', fs0)
           \<and> (\<forall>d' \<in> D. plain fs' (comps d'))
           \<and> (\<forall>d' \<in> D. \<forall>s. look fs' (comps d') s = look fs (comps d') s
                 \<or> (comps d' = comps d \<and> s = sk))"
proof -
  have pd: "plain_path d" using assms(1,3) by simp
  note len = sync_body_len[OF assms(8)]
  from sync_body_step[OF assms(1,2,3,4,5,8)] have
    p1: "\<forall>d' \<in> D. plain fs' (comps d')" and
    f1: "\<forall>d' \<in> D. \<forall>s. look fs' (comps d') s = look fs (comps d') s
                 \<or> (comps d' = comps d \<and> s = sk
                      \<and> \<not> settled_node (expected root d sk) (look fs (comps d) sk)
                      \<and> look fs' (comps d') s = Some (Link (expected root d sk)))" and
    r1: "r' = (if settled_node (expected root d sk) (look fs (comps d) sk)
                   then result\<lparr>skipped := skipped result @
                          [(mk_entry root name d sk)\<lparr>reason := Some
                             (if isSymlink fs (join [d, sk]) then ''already linked''
                              else ''real directory exists, skipping'')\<rparr>]\<rparr>
                   else result\<lparr>created := created result @ [mk_entry root name d sk]\<rparr>)"
    by blast+
  have pf: "plain fs (comps d)" using assms(3,5) by simp
  have dry: "sync_body root True name d sk result fs0 = (Inr r', fs0)"
  proof (cases "settled_node (expected root d sk) (look fs (comps d) sk)")
    case True
    then obtain n where n: "look fs (comps d) sk = Some n"
      by (cases "look fs (comps d) sk") (simp_all add: settled_node_def)
    then have n0: "look fs0 (comps d) sk = Some n" using assms(7) by simp
    have "isSymlink fs (join [d, sk]) = isSymlink fs0 (join [d, sk])"
      using isSymlink_plain[OF pf pd assms(4) len n] isSymlink_plain[OF assms(6) pd assms(4) len n0]
      by simp
    moreover have "settled_node (relative d (join [root, CANONICAL_SOURCE, sk])) (look fs0 (comps d) sk)"
      using True assms(7) by (simp add: expected_def)
    ultimately show ?thesis
      using sync_body_plain_settled[OF assms(6) pd assms(4) _ len, of root True name result] r1 True
      by simp
  next
    case False
    then have "\<not> settled_node (relative d (join [root, CANONICAL_SOURCE, sk])) (look fs0 (comps d) sk)"
      using assms(7) by (simp add: expected_def)
    from sync_body_plain_dry[OF assms(6) pd assms(4) this, of name result]
    show ?thesis using r1 False by simp
  qed
  have fr: "\<forall>d' \<in> D. \<forall>s. look fs' (comps d') s = look fs (comps d') s
                 \<or> (comps d' = comps d \<and> s = sk)"
    using f1 by blast
  show ?thesis using dry p1 fr by blast
qed

lemma sync_skills_modes:
  assumes "\<forall>d' \<in> D. plain_path d'" and "separated D" and "d \<in> D"
      and "plain fs0 (comps d)"
      and "\<forall>sk \<in> set sks. valid_name sk" and "distinct sks"
      and "\<forall>d' \<in> D. plain fs (comps d')"
      and "\<forall>s \<in> set sks. look fs (comps d) s = look fs0 (comps d) s"
      and "sync_skills root False name d sks result fs = (Inr r', fs')"
  shows "sync_skills root True name d sks result fs0 = (Inr r', fs0)
           \<and> (\<forall>d' \<in> D. plain fs' (comps d'))
           \<and> (\<forall>d' \<in> D. \<forall>s. look fs' (comps d') s = look fs (comps d') s
                 \<or> comps d' = comps d)"
  using assms(5,6,7,8,9)
proof (induction sks arbitrary: result fs)
  case Nil
  then show ?case by simp
next
  case (Cons sk sks)
  have vn: "valid_name sk" and vns: "\<forall>sk \<in> set sks. valid_name sk"
    using Cons.prems(1) by simp_all
  have nin: "sk \<notin> set sks" and dis: "distinct sks" using Cons.prems(2) by simp_all
  have l0: "look fs (comps d) sk = look fs0 (comps d) sk" using Cons.prems(4) by simp
  from Cons.prems(5) obtain r1 fs1 where
    b: "sync_body root False name d sk result fs = (Inr r1, fs1)" and
    l: "sync_skills root False name d sks r1 fs1 = (Inr r', fs')"
    by (auto split: prod.splits sum.splits)
  from sync_body_modes[OF assms(1,2,3) vn Cons.prems(3) assms(4) l0 b] have
    b0: "sync_body root True name d sk result fs0 = (Inr r1, fs0)" and
    p1: "\<forall>d' \<in> D. plain fs1 (comps d')" and
    f1: "\<forall>d' \<in> D. \<forall>s. look fs1 (comps d') s = look fs (comps d') s
                 \<or> (comps d' = comps d \<and> s = sk)"
    by blast+
  have same: "\<forall>s \<in> set sks. look fs1 (comps d) s = look fs0 (comps d) s"
  proof
    fix s assume s: "s \<in> set sks"
    then have "s \<noteq> sk" using nin by blast
    then have "look fs1 (comps d) s = look fs (comps d) s"
      using f1[rule_format, OF assms(3), of s] by blast
    then show "look fs1 (comps d) s = look fs0 (comps d) s" using Cons.prems(4) s by simp
  qed
  from Cons.IH[OF vns dis p1 same l] have
    l0': "sync_skills root True name d sks r1 fs0 = (Inr r', fs0)" and
    p': "\<forall>d' \<in> D. plain fs' (comps d')" and
    f': "\<forall>d' \<in> D. \<forall>s. look fs' (comps d') s = look fs1 (comps d') s
                 \<or> comps d' = comps d"
    by blast+
  show ?case
  proof (intro conjI)
    show "sync_skills root True name d (sk # sks) result fs0 = (Inr r', fs0)"
      using b0 l0' by simp
    show "\<forall>d' \<in> D. plain fs' (comps d')" by (rule p')
    show "\<forall>d' \<in> D. \<forall>s. look fs' (comps d') s = look fs (comps d') s
                 \<or> comps d' = comps d"
    proof (intro ballI allI)
      fix d' s assume d': "d' \<in> D"
      from f1[rule_format, OF d', of s] f'[rule_format, OF d', of s]
      show "look fs' (comps d') s = look fs (comps d') s \<or> comps d' = comps d"
        by auto
    qed
  qed
qed

lemma sync_agents_modes:
  assumes "\<forall>d' \<in> D. plain_path d'" and "separated D"
      and "\<forall>sk \<in> set skills. valid_name sk" and "distinct skills"
      and "\<forall>d' \<in> D. plain fs0 (comps d')"
      and "\<forall>a \<in> set ags. mirror_root root (snd a) \<in> D"
      and "distinct (map (\<lambda>a. comps (mirror_root root (snd a))) ags)"
      and "\<forall>d' \<in> D. plain fs (comps d')"
      and "\<forall>a \<in> set ags. \<forall>s. look fs (comps (mirror_root root (snd a))) s
                                = look fs0 (comps (mirror_root root (snd a))) s"
      and "sync_agents root False skills ags result fs = (Inr r', fs')"
  shows "sync_agents root True skills ags result fs0 = (Inr r', fs0)"
  using assms(6,7,8,9,10)
proof (induction ags arbitrary: result fs)
  case Nil
  then show ?case by simp
next
  case (Cons a ags)
  obtain name cfg where a: "a = (name, cfg)" by (cases a)
  let ?d = "mirror_root root cfg"
  have dD: "?d \<in> D" and rest: "\<forall>a \<in> set ags. mirror_root root (snd a) \<in> D"
    using Cons.prems(1) a by simp_all
  have dis: "distinct (map (\<lambda>a. comps (mirror_root root (snd a))) ags)"
    and nim: "comps ?d \<notin> (\<lambda>a. comps (mirror_root root (snd a))) ` set ags"
    using Cons.prems(2) a by simp_all
  have nin: "\<forall>a' \<in> set ags. comps (mirror_root root (snd a')) \<noteq> comps ?d"
  proof
    fix a' assume "a' \<in> set ags"
    then have "comps (mirror_root root (snd a')) \<in> (\<lambda>a. comps (mirror_root root (snd a))) ` set ags"
      by (rule imageI)
    then have m: "comps (mirror_root root (snd a')) \<in> (\<lambda>a. comps (mirror_root root (snd a))) ` set ags" .
    show "comps (mirror_root root (snd a')) \<noteq> comps ?d"
    proof (rule notI)
      assume e: "comps (mirror_root root (snd a')) = comps ?d"
      have "comps ?d \<in> (\<lambda>a. comps (mirror_root root (snd a))) ` set ags"
        using m unfolding e .
      with nim show False by (rule notE)
    qed
  qed
  have p0: "plain fs0 (comps ?d)" using assms(5) dD by simp
  have l0: "\<forall>s \<in> set skills. look fs (comps ?d) s = look fs0 (comps ?d) s"
    using Cons.prems(4) a by simp
  from Cons.prems(5) a obtain r1 fs1 where
    b: "sync_skills root False name ?d skills result fs = (Inr r1, fs1)" and
    l: "sync_agents root False skills ags r1 fs1 = (Inr r', fs')"
    by (auto simp: Let_def mirror_root_def split: prod.splits sum.splits)
  from sync_skills_modes[OF assms(1,2) dD p0 assms(3,4) Cons.prems(3) l0 b] have
    b0: "sync_skills root True name ?d skills result fs0 = (Inr r1, fs0)" and
    p1: "\<forall>d' \<in> D. plain fs1 (comps d')" and
    f1: "\<forall>d' \<in> D. \<forall>s. look fs1 (comps d') s = look fs (comps d') s
                 \<or> comps d' = comps ?d"
    by blast+
  have same: "\<forall>a' \<in> set ags. \<forall>s. look fs1 (comps (mirror_root root (snd a'))) s
                                = look fs0 (comps (mirror_root root (snd a'))) s"
  proof (intro ballI allI)
    fix a' s assume a': "a' \<in> set ags"
    have "look fs1 (comps (mirror_root root (snd a'))) s = look fs (comps (mirror_root root (snd a'))) s"
      using f1[rule_format, OF rest[rule_format, OF a'], of s] nin a' by blast
    then show "look fs1 (comps (mirror_root root (snd a'))) s
                = look fs0 (comps (mirror_root root (snd a'))) s"
      using Cons.prems(4) a' by simp
  qed
  from Cons.IH[OF rest dis p1 same l] have
    l0': "sync_agents root True skills ags r1 fs0 = (Inr r', fs0)" .
  show ?case
    using a b0 l0' by (simp add: mirror_root_def)
qed

lemma targetAgents_dryRun: "targetAgents (options\<lparr>dryRun := b\<rparr>) = targetAgents options"
  by (cases "filterAgents options") (simp_all add: targetAgents_def)

lemma syncSkills_modes:
  assumes "plain_mirrors fs root options"
      and "distinct (map comps (mirror_roots root options))"
      and "discoverSkills fs root = Inr skills"
      and "distinct skills" and "\<forall>s \<in> set skills. valid_name s"
      and "syncSkills root (options\<lparr>dryRun := False\<rparr>) fs = (Inr r, fs')"
  shows "syncSkills root (options\<lparr>dryRun := True\<rparr>) fs = (Inr r, fs)"
proof -
  note ctx = plain_mirrors_ctx[OF assms(1)]
  have d: "distinct (map (\<lambda>a. comps (mirror_root root (snd a))) (targetAgents options))"
    using assms(2) by (simp add: mirror_roots_def comp_def)
  have run: "sync_agents root False skills (targetAgents options) emptyResult fs = (Inr r, fs')"
    using assms(3,6) by (simp add: syncSkills_def targetAgents_dryRun)
  have same: "\<forall>a \<in> set (targetAgents options). \<forall>s.
                look fs (comps (mirror_root root (snd a))) s
                  = look fs (comps (mirror_root root (snd a))) s" by simp
  from sync_agents_modes[OF ctx(1,2) assms(5,4) ctx(4) ctx(3) d ctx(4) same run]
  show ?thesis using assms(3) by (simp add: syncSkills_def targetAgents_dryRun)
qed

text \<open>The same for \<open>cleanSkills\<close>, whose pairs are the entries of the mirror roots.\<close>

lemma plain_append: "plain fs (cs @ r) \<Longrightarrow> plain fs cs"
  by (simp add: plain_def in_set_prefixes prefix_prefix)

lemma normalize_nonempty: "normalize p \<noteq> []"
  by (simp add: normalize_def Let_def)

lemma join_nonempty: "join args \<noteq> []"
  by (simp add: join_def Let_def normalize_nonempty)

lemma stat_plain:
  assumes "plain fs (comps d)" and "plain_path d" and "get fs (comps d) = Some (Dir True kids)"
      and "d \<noteq> []" and "length d < PATH_MAX"
  shows "statSync fs d = Inr (Dir True kids)"
proof -
  have dl: "dotless (comps d)" using assms(2) by (simp add: plain_path_def dotless_def)
  have ok: "okdir fs (comps d)" using assms(3) by (auto simp: okdir_get)
  have "\<forall>p. prefix p (comps d) \<longrightarrow> okdir fs ([] @ p)"
    using plain_okdir_prefixes[OF assms(1) ok] by simp
  from walk_dirs[OF dl this, of MAXSYMLINKS True "[]"]
  have "path_walk fs True d = Inr (comps d)" using assms(4,5) by (simp add: path_walk_def)
  then have "locate fs True d = Inr (comps d)" using assms(3) by (simp add: locate_def)
  then show ?thesis using assms(3) by (simp add: statSync_def)
qed

lemma stat_long: "PATH_MAX \<le> length p \<Longrightarrow> \<not> existsSync fs p"
  by (simp add: existsSync_def statSync_def locate_def path_walk_def)

lemma exists_plain:
  assumes "plain fs (comps d)" and "plain_path d" and "d \<noteq> []"
  shows "existsSync fs d = (length d < PATH_MAX \<and> okdir fs (comps d))"
proof (cases "length d < PATH_MAX")
  case False
  then show ?thesis using stat_long[of d fs] by simp
next
  case len: True
  show ?thesis
  proof (cases "okdir fs (comps d)")
    case True
    then obtain kids where "get fs (comps d) = Some (Dir True kids)" by (auto simp: okdir_get)
    from stat_plain[OF assms(1,2) this assms(3) len] show ?thesis
      using True len by (simp add: existsSync_def)
  next
    case False
    then have none: "get fs (comps d) = None" using plain_cases[OF assms(1)] by simp
    have "comps d \<noteq> []" using False plain_root[OF assms(1)] by auto
    then obtain cs c where cs: "comps d = cs @ [c]" by (cases "comps d" rule: rev_cases) auto
    have dl: "dotless (comps d)" using assms(2) by (simp add: plain_path_def dotless_def)
    then have dl': "dotless cs" and c: "c \<noteq> ''.''" "c \<noteq> ''..''"
      unfolding cs dotless_append dotless_Cons by blast+
    have p: "plain fs cs" using assms(1) unfolding cs by (rule plain_append)
    have w: "(\<exists>e. walk fs MAXSYMLINKS True [] (cs @ [c]) = Inl e)
               \<or> walk fs MAXSYMLINKS True [] (cs @ [c]) = Inr (cs @ [c])"
    proof (cases "okdir fs cs")
      case True
      have pre: "\<forall>p. prefix p cs \<longrightarrow> okdir fs ([] @ p)"
        using plain_okdir_prefixes[OF p True] by simp
      have nl: "case view fs (cs @ [c]) of Some (KLink d) \<Rightarrow> False | _ \<Rightarrow> True"
        using none[unfolded cs] by (simp add: view_def)
      show ?thesis
        using walk_dirs[OF dl' pre, of MAXSYMLINKS True "[c]"]
          walk_last_follow[OF True c nl, of MAXSYMLINKS]
        by (simp split: if_splits)
    next
      case False
      from locate_plain_missing[OF p dl' False, of MAXSYMLINKS True c] show ?thesis by blast
    qed
    have "\<exists>e. statSync fs d = Inl e"
      using w none[unfolded cs]
      unfolding statSync_def locate_def path_walk_def cs
      by (auto split: sum.splits)
    then show ?thesis using False by (auto simp: existsSync_def)
  qed
qed

lemma readdir_plain:
  assumes "plain fs (comps d)" and "plain_path d" and "get fs (comps d) = Some (Dir True kids)"
      and "d \<noteq> []" and "length d < PATH_MAX"
  shows "readdirSync fs d = Inr (sort_key fst kids)"
  using stat_plain[OF assms] by (simp add: readdirSync_def)

lemma clean_body_modes:
  assumes "plain fs cs" and "okdir fs cs" and "plain fs0 cs" and "okdir fs0 cs"
      and "plain_path d" and "cs = comps d" and "valid_name nm"
      and "get fs (cs @ [nm]) = get fs0 (cs @ [nm])"
  shows "\<exists>r'. clean_body root True name d nm result fs0 = (Inr r', fs0)
           \<and> (clean_body root False name d nm result fs = (Inr r', fs)
               \<or> (\<exists>x. get fs (cs @ [nm]) = Some (Link x)
                      \<and> clean_body root False name d nm result fs
                          = (Inr r', put (cs @ [nm]) None fs)))"
proof -
  have lk: "look fs cs nm = get fs (cs @ [nm])" "look fs0 cs nm = get fs (cs @ [nm])"
    using assms(2,4,8) by (simp_all add: look_def)
  have absent: ?thesis
    if "\<exists>e. lstatSync fs (join [d, nm]) = Inl e" and "\<exists>e. lstatSync fs0 (join [d, nm]) = Inl e"
    using that by (auto simp: clean_body_def Let_def isSymlink_def)
  show ?thesis
  proof (cases "length (join [d, nm]) < PATH_MAX")
    case False
    then show ?thesis
      using absent lstat_long[of "join [d, nm]" fs] lstat_long[of "join [d, nm]" fs0] by simp
  next
    case len: True
    show ?thesis
    proof (cases "get fs (cs @ [nm])")
      case None
      have n1: "look fs (comps d) nm = None" and n2: "look fs0 (comps d) nm = None"
        using lk None unfolding assms(6) by simp_all
      show ?thesis
        using absent
          lstat_plain_none[OF assms(1)[unfolded assms(6)] assms(5,7) n1]
          lstat_plain_none[OF assms(3)[unfolded assms(6)] assms(5,7) n2]
        by simp
    next
      case (Some n)
      have l: "lstatSync fs (join [d, nm]) = Inr n"
        using lstat_plain_some[OF assms(1)[unfolded assms(6)] assms(5,7) len] lk(1) Some
        unfolding assms(6) by simp
      have l0: "lstatSync fs0 (join [d, nm]) = Inr n"
        using lstat_plain_some[OF assms(3)[unfolded assms(6)] assms(5,7) len] lk(2) Some
        unfolding assms(6) by simp
      show ?thesis
      proof (cases n)
        case (File b)
        then show ?thesis using l l0 Some
          by (simp add: clean_body_def Let_def isSymlink_def isSymbolicLink_def)
      next
        case (Dir ok kids)
        then show ?thesis using l l0 Some
          by (simp add: clean_body_def Let_def isSymlink_def isSymbolicLink_def)
      next
        case (Link x)
        have u: "unlinkSync fs (join [d, nm]) = Inr (put (cs @ [nm]) None fs)"
          using unlink_plain[OF assms(1,2,5,6,7) len] Some Link by simp
        show ?thesis
        proof (cases "startsWith (join [d, x]) (join [root, CANONICAL_SOURCE])")
          case True
          then show ?thesis using l l0 Some Link u
            by (simp add: clean_body_def Let_def isSymlink_def isSymbolicLink_def readlinkSync_def)
        next
          case False
          then show ?thesis using l l0 Some Link
            by (simp add: clean_body_def Let_def isSymlink_def isSymbolicLink_def readlinkSync_def)
        qed
      qed
    qed
  qed
qed

lemma plain_view_eq:
  assumes "plain fs cs" and "\<forall>p. prefix p cs \<longrightarrow> view fs' p = view fs p"
  shows "plain fs' cs"
  using assms by (simp add: plain_def in_set_prefixes passable_def)

lemma unlink_frame:
  assumes "get fs l = Some (Link x)"
  shows "\<forall>l'. view (put l None fs) l' = view fs l' \<or> l' = l"
    and "\<forall>L. \<not> prefix L l \<longrightarrow> get (put l None fs) L = get fs L"
proof -
  have lf: "leafy None" by (simp add: leafy_def)
  have il: "is_leaf (get fs l)" using assms by (simp add: is_leaf_def)
  show "\<forall>l'. view (put l None fs) l' = view fs l' \<or> l' = l"
    using view_put[OF lf il] by blast
  show "\<forall>L. \<not> prefix L l \<longrightarrow> get (put l None fs) L = get fs L"
    using get_put_frame[OF lf il] by blast
qed

lemma clean_entries_modes:
  assumes "plain_path d" and "cs = comps d" and "plain fs0 cs" and "okdir fs0 cs"
      and "\<forall>n \<in> set names. valid_name n" and "distinct names"
      and "plain fs cs" and "okdir fs cs"
      and "\<forall>n \<in> set names. get fs (cs @ [n]) = get fs0 (cs @ [n])"
  shows "\<exists>r' fs'. clean_entries root False name d names result fs = (Inr r', fs')
           \<and> clean_entries root True name d names result fs0 = (Inr r', fs0)
           \<and> (\<forall>l. view fs' l = view fs l \<or> (\<exists>n \<in> set names. l = cs @ [n]))
           \<and> (\<forall>L. (\<forall>n \<in> set names. \<not> prefix L (cs @ [n])) \<longrightarrow> get fs' L = get fs L)"
  using assms(5,6,7,8,9)
proof (induction names arbitrary: result fs)
  case Nil
  then show ?case by simp
next
  case (Cons nm names)
  have vn: "valid_name nm" and vns: "\<forall>n \<in> set names. valid_name n"
    using Cons.prems(1) by simp_all
  have nin: "nm \<notin> set names" and dis: "distinct names" using Cons.prems(2) by simp_all
  have g0: "get fs (cs @ [nm]) = get fs0 (cs @ [nm])" using Cons.prems(5) by simp
  from clean_body_modes[OF Cons.prems(3,4) assms(3,4,1,2) vn g0, of root name result]
  obtain r1 where
    b0: "clean_body root True name d nm result fs0 = (Inr r1, fs0)" and
    alt: "clean_body root False name d nm result fs = (Inr r1, fs)
               \<or> (\<exists>x. get fs (cs @ [nm]) = Some (Link x)
                      \<and> clean_body root False name d nm result fs
                          = (Inr r1, put (cs @ [nm]) None fs))"
    by blast
  have "\<exists>fs1. clean_body root False name d nm result fs = (Inr r1, fs1)
           \<and> (\<forall>l. view fs1 l = view fs l \<or> l = cs @ [nm])
           \<and> (\<forall>L. \<not> prefix L (cs @ [nm]) \<longrightarrow> get fs1 L = get fs L)"
    using alt
  proof
    assume "clean_body root False name d nm result fs = (Inr r1, fs)"
    then show ?thesis by blast
  next
    assume "\<exists>x. get fs (cs @ [nm]) = Some (Link x)
                      \<and> clean_body root False name d nm result fs
                          = (Inr r1, put (cs @ [nm]) None fs)"
    then obtain x where x: "get fs (cs @ [nm]) = Some (Link x)"
      and c: "clean_body root False name d nm result fs = (Inr r1, put (cs @ [nm]) None fs)"
      by blast
    show ?thesis
      using c unlink_frame[OF x] by blast
  qed
  then obtain fs1 where
    b: "clean_body root False name d nm result fs = (Inr r1, fs1)" and
    v1: "\<forall>l. view fs1 l = view fs l \<or> l = cs @ [nm]" and
    g1: "\<forall>L. \<not> prefix L (cs @ [nm]) \<longrightarrow> get fs1 L = get fs L"
    by blast
  have vp: "\<forall>p. prefix p cs \<longrightarrow> view fs1 p = view fs p"
  proof (intro allI impI)
    fix p assume "prefix p cs"
    then have "length p \<le> length cs" by (rule prefix_length_le)
    then have "p \<noteq> cs @ [nm]" by auto
    then show "view fs1 p = view fs p" using v1 by blast
  qed
  have p1: "plain fs1 cs" using Cons.prems(3) vp by (rule plain_view_eq)
  have o1: "okdir fs1 cs" using Cons.prems(4) vp by (simp add: okdir_def)
  have same: "\<forall>n \<in> set names. get fs1 (cs @ [n]) = get fs0 (cs @ [n])"
  proof
    fix n assume n: "n \<in> set names"
    then have "n \<noteq> nm" using nin by blast
    then have "\<not> prefix (cs @ [n]) (cs @ [nm])" by simp
    then have "get fs1 (cs @ [n]) = get fs (cs @ [n])" using g1 by blast
    then show "get fs1 (cs @ [n]) = get fs0 (cs @ [n])" using Cons.prems(5) n by simp
  qed
  from Cons.IH[OF vns dis p1 o1 same, of r1]
  obtain r' fs' where
    l: "clean_entries root False name d names r1 fs1 = (Inr r', fs')" and
    l0: "clean_entries root True name d names r1 fs0 = (Inr r', fs0)" and
    v': "\<forall>l. view fs' l = view fs1 l \<or> (\<exists>n \<in> set names. l = cs @ [n])" and
    g': "\<forall>L. (\<forall>n \<in> set names. \<not> prefix L (cs @ [n])) \<longrightarrow> get fs' L = get fs1 L"
    by blast
  show ?case
  proof (rule exI[of _ r'], rule exI[of _ fs'], intro conjI)
    show "clean_entries root False name d (nm # names) result fs = (Inr r', fs')"
      using b l by simp
    show "clean_entries root True name d (nm # names) result fs0 = (Inr r', fs0)"
      using b0 l0 by simp
    show "\<forall>l. view fs' l = view fs l \<or> (\<exists>n \<in> set (nm # names). l = cs @ [n])"
    proof
      fix l
      from v'[rule_format, of l] v1[rule_format, of l]
      show "view fs' l = view fs l \<or> (\<exists>n \<in> set (nm # names). l = cs @ [n])"
        by auto
    qed
    show "\<forall>L. (\<forall>n \<in> set (nm # names). \<not> prefix L (cs @ [n])) \<longrightarrow> get fs' L = get fs L"
    proof (intro allI impI)
      fix L assume h: "\<forall>n \<in> set (nm # names). \<not> prefix L (cs @ [n])"
      then have "\<not> prefix L (cs @ [nm])" and "\<forall>n \<in> set names. \<not> prefix L (cs @ [n])"
        by simp_all
      then show "get fs' L = get fs L" using g' g1 by simp
    qed
  qed
qed

lemma clean_agents_modes:
  assumes "\<forall>d' \<in> D. plain_path d'" and "separated D"
      and "\<forall>d' \<in> D. plain fs0 (comps d')"
      and "\<forall>d' \<in> D. \<forall>ok kids. get fs0 (comps d') = Some (Dir ok kids)
              \<longrightarrow> distinct (map fst kids) \<and> (\<forall>n \<in> set (map fst kids). valid_name n)"
      and "\<forall>a \<in> set ags. mirror_root root (snd a) \<in> D"
      and "distinct (map (\<lambda>a. comps (mirror_root root (snd a))) ags)"
      and "\<forall>a \<in> set ags. plain fs (comps (mirror_root root (snd a)))
                         \<and> get fs (comps (mirror_root root (snd a)))
                             = get fs0 (comps (mirror_root root (snd a)))"
  shows "\<exists>r' fs'. clean_agents root False ags result fs = (Inr r', fs')
           \<and> clean_agents root True ags result fs0 = (Inr r', fs0)"
  using assms(5,6,7)
proof (induction ags arbitrary: result fs)
  case Nil
  then show ?case by simp
next
  case (Cons a ags)
  obtain name cfg where a: "a = (name, cfg)" by (cases a)
  let ?d = "mirror_root root cfg"
  let ?cs = "comps ?d"
  have dD: "?d \<in> D" and rest: "\<forall>a \<in> set ags. mirror_root root (snd a) \<in> D"
    using Cons.prems(1) a by simp_all
  have dis: "distinct (map (\<lambda>a. comps (mirror_root root (snd a))) ags)"
    and nim: "?cs \<notin> (\<lambda>a. comps (mirror_root root (snd a))) ` set ags"
    using Cons.prems(2) a by simp_all
  have nin: "\<forall>a' \<in> set ags. comps (mirror_root root (snd a')) \<noteq> ?cs"
  proof
    fix a' assume "a' \<in> set ags"
    then have m: "comps (mirror_root root (snd a')) \<in> (\<lambda>a. comps (mirror_root root (snd a))) ` set ags"
      by (rule imageI)
    show "comps (mirror_root root (snd a')) \<noteq> ?cs"
    proof (rule notI)
      assume e: "comps (mirror_root root (snd a')) = ?cs"
      have "?cs \<in> (\<lambda>a. comps (mirror_root root (snd a))) ` set ags"
        using m unfolding e .
      with nim show False by (rule notE)
    qed
  qed
  have pd: "plain_path ?d" using assms(1) dD by simp
  have p0: "plain fs0 ?cs" using assms(3) dD by simp
  have pf: "plain fs ?cs" and g: "get fs ?cs = get fs0 ?cs" using Cons.prems(3) a by simp_all
  have ok: "okdir fs ?cs = okdir fs0 ?cs" using g by (simp add: okdir_def view_def)
  have dne: "?d \<noteq> []" by (simp add: mirror_root_def join_nonempty)
  have ex: "existsSync fs ?d = (length ?d < PATH_MAX \<and> okdir fs ?cs)"
    using pf pd dne by (rule exists_plain)
  have ex0: "existsSync fs0 ?d = (length ?d < PATH_MAX \<and> okdir fs ?cs)"
    using exists_plain[OF p0 pd dne] ok by simp
  have others: "\<forall>a \<in> set ags. plain fs (comps (mirror_root root (snd a)))
                         \<and> get fs (comps (mirror_root root (snd a)))
                             = get fs0 (comps (mirror_root root (snd a)))"
    using Cons.prems(3) by simp
  show ?case
  proof (cases "length ?d < PATH_MAX \<and> okdir fs ?cs")
    case False
    from Cons.IH[OF rest dis others, of result]
    obtain r' fs' where
      l: "clean_agents root False ags result fs = (Inr r', fs')" and
      l0: "clean_agents root True ags result fs0 = (Inr r', fs0)"
      by blast
    show ?thesis
    proof (rule exI[of _ r'], rule exI[of _ fs'], intro conjI)
      show "clean_agents root False (a # ags) result fs = (Inr r', fs')"
        using a l ex False by (simp add: mirror_root_def)
      show "clean_agents root True (a # ags) result fs0 = (Inr r', fs0)"
        using a l0 ex0 False by (simp add: mirror_root_def)
    qed
  next
    case both: True
    then have len: "length ?d < PATH_MAX" and True: "okdir fs ?cs" by simp_all
    then obtain kids0 where k: "get fs ?cs = Some (Dir True kids0)" by (auto simp: okdir_get)
    then have k0: "get fs0 ?cs = Some (Dir True kids0)" using g by simp
    define kids where "kids = sort_key fst kids0"
    have rd: "readdirSync fs ?d = Inr kids"
      unfolding kids_def using pf pd k dne len by (rule readdir_plain)
    have rd0: "readdirSync fs0 ?d = Inr kids"
      unfolding kids_def using p0 pd k0 dne len by (rule readdir_plain)
    have ok0: "okdir fs0 ?cs" using True ok by simp
    have tidy0: "distinct (map fst kids0)" "\<forall>n \<in> set (map fst kids0). valid_name n"
      using assms(4)[rule_format, OF dD k0] by blast+
    have tidy: "distinct (map fst kids)" "\<forall>n \<in> set (map fst kids). valid_name n"
      using tidy0 by (simp_all add: kids_def distinct_map)
    have kidsame: "\<forall>n \<in> set (map fst kids). get fs (?cs @ [n]) = get fs0 (?cs @ [n])"
      using g by (simp add: get_append)
    from clean_entries_modes[OF pd refl p0 ok0 tidy(2,1) pf True kidsame, of root name result]
    obtain r1 fs1 where
      b: "clean_entries root False name ?d (map fst kids) result fs = (Inr r1, fs1)" and
      b0: "clean_entries root True name ?d (map fst kids) result fs0 = (Inr r1, fs0)" and
      v1: "\<forall>l. view fs1 l = view fs l \<or> (\<exists>n \<in> set (map fst kids). l = ?cs @ [n])" and
      g1: "\<forall>L. (\<forall>n \<in> set (map fst kids). \<not> prefix L (?cs @ [n])) \<longrightarrow> get fs1 L = get fs L"
      by blast
    have others1: "\<forall>a' \<in> set ags. plain fs1 (comps (mirror_root root (snd a')))
                         \<and> get fs1 (comps (mirror_root root (snd a')))
                             = get fs0 (comps (mirror_root root (snd a')))"
    proof
      fix a' assume a': "a' \<in> set ags"
      let ?cs' = "comps (mirror_root root (snd a'))"
      have d': "mirror_root root (snd a') \<in> D" using rest a' by blast
      have ne: "?cs' \<noteq> ?cs" using nin a' by blast
      have s1: "\<not> strict_prefix ?cs ?cs'" and s2: "\<not> strict_prefix ?cs' ?cs"
        using assms(2) dD d' by (simp_all add: separated_def)
      have o: "plain fs ?cs'" "get fs ?cs' = get fs0 ?cs'" using others a' by blast+
      have np: "\<not> prefix (?cs @ [n]) p" if "prefix p ?cs'" for p n
      proof
        assume "prefix (?cs @ [n]) p"
        then have "prefix (?cs @ [n]) ?cs'" using that by (rule prefix_order.trans)
        then have "strict_prefix ?cs ?cs'" by (auto simp: strict_prefix_def prefix_def)
        then show False using s1 by simp
      qed
      have vp: "\<forall>p. prefix p ?cs' \<longrightarrow> view fs1 p = view fs p"
      proof (intro allI impI)
        fix p assume p: "prefix p ?cs'"
        have "p \<noteq> ?cs @ [n]" for n using np[OF p, of n] by auto
        then show "view fs1 p = view fs p" using v1 by blast
      qed
      have pl: "plain fs1 ?cs'" using o(1) vp by (rule plain_view_eq)
      have "\<not> prefix ?cs' (?cs @ [n])" for n
      proof
        assume "prefix ?cs' (?cs @ [n])"
        then have "?cs' = ?cs @ [n] \<or> prefix ?cs' ?cs" by (simp add: prefix_snoc)
        then show False
        proof
          assume "?cs' = ?cs @ [n]"
          then have "prefix (?cs @ [n]) ?cs'" by simp
          then show False using np[of ?cs' n] by simp
        next
          assume "prefix ?cs' ?cs"
          then have "strict_prefix ?cs' ?cs" using ne by (simp add: strict_prefix_def)
          then show False using s2 by simp
        qed
      qed
      then have "get fs1 ?cs' = get fs ?cs'" using g1 by blast
      then show "plain fs1 ?cs' \<and> get fs1 ?cs' = get fs0 ?cs'" using pl o(2) by simp
    qed
    from Cons.IH[OF rest dis others1, of r1]
    obtain r' fs' where
      l: "clean_agents root False ags r1 fs1 = (Inr r', fs')" and
      l0: "clean_agents root True ags r1 fs0 = (Inr r', fs0)"
      by blast
    show ?thesis
    proof (rule exI[of _ r'], rule exI[of _ fs'], intro conjI)
      show "clean_agents root False (a # ags) result fs = (Inr r', fs')"
        using a b l ex both rd by (simp add: mirror_root_def)
      show "clean_agents root True (a # ags) result fs0 = (Inr r', fs0)"
        using a b0 l0 ex0 both rd0 by (simp add: mirror_root_def)
    qed
  qed
qed

lemma cleanSkills_modes:
  assumes "plain_mirrors fs root options"
      and "distinct (map comps (mirror_roots root options))"
      and "tidy_mirrors fs root options"
  shows "\<exists>r fs'. cleanSkills root (options\<lparr>dryRun := False\<rparr>) fs = (Inr r, fs')
               \<and> cleanSkills root (options\<lparr>dryRun := True\<rparr>) fs = (Inr r, fs)"
proof -
  note ctx = plain_mirrors_ctx[OF assms(1)]
  have d: "distinct (map (\<lambda>a. comps (mirror_root root (snd a))) (targetAgents options))"
    using assms(2) by (simp add: mirror_roots_def comp_def)
  have t: "\<forall>d' \<in> set (mirror_roots root options). \<forall>ok kids. get fs (comps d') = Some (Dir ok kids)
              \<longrightarrow> distinct (map fst kids) \<and> (\<forall>n \<in> set (map fst kids). valid_name n)"
  proof (intro ballI allI impI)
    fix d' ok kids
    assume d': "d' \<in> set (mirror_roots root options)"
      and k: "get fs (comps d') = Some (Dir ok kids)"
    from assms(3) d' have "case get fs (comps d') of
          Some (Dir ok kids) \<Rightarrow> distinct (map fst kids) \<and> (\<forall>n \<in> set (map fst kids). valid_name n)
        | _ \<Rightarrow> True"
      unfolding tidy_mirrors_def by blast
    then show "distinct (map fst kids) \<and> (\<forall>n \<in> set (map fst kids). valid_name n)"
      unfolding k by simp
  qed
  have s: "\<forall>a \<in> set (targetAgents options). plain fs (comps (mirror_root root (snd a)))
                         \<and> get fs (comps (mirror_root root (snd a)))
                             = get fs (comps (mirror_root root (snd a)))"
    using ctx(3,4) by simp
  from clean_agents_modes[OF ctx(1,2,4) t ctx(3) d s, of emptyResult]
  show ?thesis by (simp add: cleanSkills_def targetAgents_dryRun)
qed
section \<open>One pair within a run\<close>

text \<open>
  The lists of a report only grow, and what a loop adds belongs to the pairs
  it has processed. So the run can be cut at any pair: what precedes the pair
  (\<open>sync_before\<close>), the loop body for the pair, and the rest.
\<close>

lemma sync_body_lists:
  assumes "sync_body root dry name d sk result fs = (Inr r', fs')"
  shows "(\<forall>e \<in> set (created r'). e \<in> set (created result) \<or> (skill e = sk \<and> agent e = name))
       \<and> (\<forall>e \<in> set (skipped r'). e \<in> set (skipped result) \<or> (skill e = sk \<and> agent e = name))
       \<and> set (created result) \<subseteq> set (created r') \<and> set (skipped result) \<subseteq> set (skipped r')"
  using sync_body_shape[OF assms] by (auto simp: mk_entry_def)

lemma sync_skills_lists:
  "sync_skills root dry name d sks result fs = (Inr r', fs') \<Longrightarrow>
     (\<forall>e \<in> set (created r'). e \<in> set (created result) \<or> (skill e \<in> set sks \<and> agent e = name))
     \<and> (\<forall>e \<in> set (skipped r'). e \<in> set (skipped result) \<or> (skill e \<in> set sks \<and> agent e = name))
     \<and> set (created result) \<subseteq> set (created r') \<and> set (skipped result) \<subseteq> set (skipped r')"
proof (induction sks arbitrary: result fs)
  case Nil
  then show ?case by simp
next
  case (Cons sk sks)
  from Cons.prems obtain r1 fs1 where
    b: "sync_body root dry name d sk result fs = (Inr r1, fs1)" and
    rest: "sync_skills root dry name d sks r1 fs1 = (Inr r', fs')"
    by (auto split: prod.splits sum.splits)
  note 1 = sync_body_lists[OF b]
  note 2 = Cons.IH[OF rest]
  show ?case
  proof (intro conjI ballI)
    fix e assume "e \<in> set (created r')"
    then show "e \<in> set (created result) \<or> (skill e \<in> set (sk # sks) \<and> agent e = name)"
      using 1 2 by auto
  next
    fix e assume "e \<in> set (skipped r')"
    then show "e \<in> set (skipped result) \<or> (skill e \<in> set (sk # sks) \<and> agent e = name)"
      using 1 2 by auto
  next
    show "set (created result) \<subseteq> set (created r')" using 1 2 by blast
    show "set (skipped result) \<subseteq> set (skipped r')" using 1 2 by blast
  qed
qed

lemma sync_agents_lists:
  "sync_agents root dry skills ags result fs = (Inr r', fs') \<Longrightarrow>
     (\<forall>e \<in> set (created r'). e \<in> set (created result) \<or> agent e \<in> fst ` set ags)
     \<and> (\<forall>e \<in> set (skipped r'). e \<in> set (skipped result) \<or> agent e \<in> fst ` set ags)
     \<and> set (created result) \<subseteq> set (created r') \<and> set (skipped result) \<subseteq> set (skipped r')"
proof (induction ags arbitrary: result fs)
  case Nil
  then show ?case by simp
next
  case (Cons a ags)
  obtain name cfg where a: "a = (name, cfg)" by (cases a)
  from Cons.prems a obtain r1 fs1 where
    b: "sync_skills root dry name (join [root, skillsDir cfg]) skills result fs = (Inr r1, fs1)" and
    rest: "sync_agents root dry skills ags r1 fs1 = (Inr r', fs')"
    by (auto simp: Let_def split: prod.splits sum.splits)
  note 1 = sync_skills_lists[OF b]
  note 2 = Cons.IH[OF rest]
  show ?case
  proof (intro conjI ballI)
    fix e assume "e \<in> set (created r')"
    then show "e \<in> set (created result) \<or> agent e \<in> fst ` set (a # ags)"
      using 1 2 a by auto
  next
    fix e assume "e \<in> set (skipped r')"
    then show "e \<in> set (skipped result) \<or> agent e \<in> fst ` set (a # ags)"
      using 1 2 a by auto
  next
    show "set (created result) \<subseteq> set (created r')" using 1 2 by blast
    show "set (skipped result) \<subseteq> set (skipped r')" using 1 2 by blast
  qed
qed

lemma sync_before_lists:
  assumes "sync_before root dry skills pre name cfg sks1 fs = (Inr r1, fs1)"
  shows "\<forall>e \<in> set (created r1) \<union> set (skipped r1).
           agent e \<in> fst ` set pre \<or> (skill e \<in> set sks1 \<and> agent e = name)"
proof -
  from assms obtain r0 fs0 where
    a: "sync_agents root dry skills pre emptyResult fs = (Inr r0, fs0)" and
    b: "sync_skills root dry name (join [root, skillsDir cfg]) sks1 r0 fs0 = (Inr r1, fs1)"
    by (auto simp: sync_before_def split: prod.splits sum.splits)
  note 1 = sync_agents_lists[OF a]
  note 2 = sync_skills_lists[OF b]
  show ?thesis using 1 2 by (auto simp: emptyResult_def)
qed

lemma sync_run_split:
  assumes "discoverSkills fs root = Inr (sks1 @ sk # sks2)"
      and "targetAgents options = pre @ (name, cfg) # post"
      and "sync_before root (dryRun options) (sks1 @ sk # sks2) pre name cfg sks1 fs = (Inr r1, fs1)"
  shows "syncSkills root options fs =
     (case sync_body root (dryRun options) name (join [root, skillsDir cfg]) sk r1 fs1 of
        (Inl e, f) \<Rightarrow> (Inl e, f)
      | (Inr r2, fs2) \<Rightarrow>
          (case sync_skills root (dryRun options) name (join [root, skillsDir cfg]) sks2 r2 fs2 of
             (Inl e, f) \<Rightarrow> (Inl e, f)
           | (Inr r3, fs3) \<Rightarrow> sync_agents root (dryRun options) (sks1 @ sk # sks2) post r3 fs3))"
proof -
  let ?dry = "dryRun options"
  let ?skills = "sks1 @ sk # sks2"
  let ?d = "join [root, skillsDir cfg]"
  from assms(3) obtain r0 fs0 where
    a: "sync_agents root ?dry ?skills pre emptyResult fs = (Inr r0, fs0)" and
    b: "sync_skills root ?dry name ?d sks1 r0 fs0 = (Inr r1, fs1)"
    by (auto simp: sync_before_def split: prod.splits sum.splits)
  have inner: "sync_skills root ?dry name ?d ?skills r0 fs0 =
     (case sync_body root ?dry name ?d sk r1 fs1 of
        (Inl e, f) \<Rightarrow> (Inl e, f)
      | (Inr r2, fs2) \<Rightarrow> sync_skills root ?dry name ?d sks2 r2 fs2)"
    using b by (simp add: sync_skills_append)
  have "syncSkills root options fs =
          sync_agents root ?dry ?skills (pre @ (name, cfg) # post) emptyResult fs"
    using assms(1,2) by (simp add: syncSkills_def)
  also have "\<dots> = sync_agents root ?dry ?skills ((name, cfg) # post) r0 fs0"
    using a by (simp add: sync_agents_append)
  also have "\<dots> = (case sync_skills root ?dry name ?d ?skills r0 fs0 of
                      (Inl e, f) \<Rightarrow> (Inl e, f)
                    | (Inr r3, fs3) \<Rightarrow> sync_agents root ?dry ?skills post r3 fs3)"
    by simp
  finally show ?thesis
    unfolding inner by (auto split: prod.splits sum.splits)
qed


lemma sync_run_report:
  assumes "discoverSkills fs root = Inr (sks1 @ sk # sks2)"
      and "targetAgents options = pre @ (name, cfg) # post"
      and "sync_before root (dryRun options) (sks1 @ sk # sks2) pre name cfg sks1 fs = (Inr r1, fs1)"
      and "syncSkills root options fs = (Inr r, fs')"
      and "distinct (sks1 @ sk # sks2)" and "distinct (map fst (targetAgents options))"
  shows "\<exists>r2 fs2. sync_body root (dryRun options) name (join [root, skillsDir cfg]) sk r1 fs1
                     = (Inr r2, fs2)
           \<and> (\<forall>e. skill e = sk \<and> agent e = name \<longrightarrow>
                 (e \<in> set (created r) \<longleftrightarrow> e \<in> set (created r2))
               \<and> (e \<in> set (skipped r) \<longleftrightarrow> e \<in> set (skipped r2))
               \<and> e \<notin> set (created r1) \<and> e \<notin> set (skipped r1))"
proof -
  let ?dry = "dryRun options"
  let ?skills = "sks1 @ sk # sks2"
  let ?d = "join [root, skillsDir cfg]"
  note split = sync_run_split[OF assms(1,2,3)]
  from split assms(4) obtain r2 fs2 r3 fs3 where
    b: "sync_body root ?dry name ?d sk r1 fs1 = (Inr r2, fs2)" and
    s: "sync_skills root ?dry name ?d sks2 r2 fs2 = (Inr r3, fs3)" and
    a: "sync_agents root ?dry ?skills post r3 fs3 = (Inr r, fs')"
    by (auto split: prod.splits sum.splits)
  have nsk: "sk \<notin> set sks1" "sk \<notin> set sks2" using assms(5) by auto
  have nname: "name \<notin> fst ` set pre" "name \<notin> fst ` set post"
    using assms(6) unfolding assms(2) by auto
  note l1 = sync_before_lists[OF assms(3)]
  note l2 = sync_skills_lists[OF s]
  note l3 = sync_agents_lists[OF a]
  have main: "(e \<in> set (created r) \<longleftrightarrow> e \<in> set (created r2))
               \<and> (e \<in> set (skipped r) \<longleftrightarrow> e \<in> set (skipped r2))
               \<and> e \<notin> set (created r1) \<and> e \<notin> set (skipped r1)"
    if e: "skill e = sk \<and> agent e = name" for e
  proof (intro conjI)
    show "e \<in> set (created r) \<longleftrightarrow> e \<in> set (created r2)"
      using l2 l3 e nsk nname by blast
    show "e \<in> set (skipped r) \<longleftrightarrow> e \<in> set (skipped r2)"
      using l2 l3 e nsk nname by blast
    show "e \<notin> set (created r1)" using l1 e nsk nname by blast
    show "e \<notin> set (skipped r1)" using l1 e nsk nname by blast
  qed
  show ?thesis using b main by blast
qed

text \<open>
  \<open>getStatus\<close> never raises once the items are discovered: \<^verbatim>\<open>readlinkSync\<close> is
  only called where \<^verbatim>\<open>lstat\<close> has just found a link. Each bucket is the list of
  items filtered by what \<^verbatim>\<open>lstat\<close> answers at the link path.
\<close>

lemma status_body_buckets:
  "status_body root d fs sk (l, u, w) =
     Inr (if is_linked root d fs sk then l @ [sk] else l,
          if is_unlinked d fs sk then u @ [sk] else u,
          if is_wrong root d fs sk then w @ [sk] else w)"
proof (cases "lstatSync fs (join [d, sk])")
  case (Inl e)
  have sym: "\<not> isSymlink fs (join [d, sk])" using Inl by (simp add: isSymlink_def)
  have ex: "\<not> existsSync fs (join [d, sk])" using Inl by (rule lstat_fails_not_exists)
  show ?thesis using sym ex Inl
    by (simp add: status_body_def Let_def is_linked_def is_unlinked_def is_wrong_def)
next
  case (Inr n)
  show ?thesis
  proof (cases "isSymbolicLink n")
    case True
    then obtain x where n: "n = Link x" by (cases n) (auto simp: isSymbolicLink_def)
    have sym: "isSymlink fs (join [d, sk])" using Inr n by (simp add: isSymlink_def isSymbolicLink_def)
    have rl: "readlinkSync fs (join [d, sk]) = Inr x" using Inr n by (simp add: readlinkSync_def)
    show ?thesis using sym rl Inr n
      by (simp add: status_body_def Let_def is_linked_def is_unlinked_def is_wrong_def expected_def)
  next
    case False
    have sym: "\<not> isSymlink fs (join [d, sk])" using Inr False by (simp add: isSymlink_def)
    have ex: "existsSync fs (join [d, sk])"
      using lstat_real_stat[OF Inr False] by (simp add: existsSync_def)
    show ?thesis using sym ex Inr False
      by (cases n) (simp_all add: status_body_def Let_def is_linked_def is_unlinked_def
                      is_wrong_def isSymbolicLink_def)
  qed
qed

lemma status_skills_buckets:
  "status_skills root d fs sks (l, u, w) =
     Inr (l @ filter (is_linked root d fs) sks,
          u @ filter (is_unlinked d fs) sks,
          w @ filter (is_wrong root d fs) sks)"
proof (induction sks arbitrary: l u w)
  case Nil
  then show ?case by simp
next
  case (Cons sk sks)
  show ?case
    by (simp only: status_skills.simps status_body_buckets sum.case Cons.IH) simp
qed

lemma status_agents_buckets:
  "status_agents root fs skills ags sts = Inr (sts @ map (status_of root fs skills) ags)"
proof (induction ags arbitrary: sts)
  case Nil
  then show ?case by simp
next
  case (Cons a ags)
  obtain name cfg where a: "a = (name, cfg)" by (cases a)
  show ?case
    unfolding a
    by (simp add: Let_def status_skills_buckets Cons.IH status_of_def mirror_root_def)
qed

lemma getStatus_buckets:
  assumes "discoverSkills fs root = Inr skills"
  shows "getStatus root options fs = Inr (map (status_of root fs skills) (targetAgents options))"
  using assms by (simp add: getStatus_def status_agents_buckets)

lemma getStatus_pair:
  assumes "discoverSkills fs root = Inr skills"
      and "targetAgents options = pre @ (name, cfg) # post"
  shows "\<exists>sts. getStatus root options fs = Inr sts
           \<and> length sts = length (targetAgents options)
           \<and> sts ! length pre = status_of root fs skills (name, cfg)"
proof -
  have "map (status_of root fs skills) (targetAgents options) ! length pre
          = status_of root fs skills (name, cfg)"
    unfolding assms(2) by (simp add: nth_append)
  then show ?thesis using getStatus_buckets[OF assms(1), of options] by simp
qed


text \<open>\<open>cleanSkills\<close> raises errors of file-system calls only.\<close>

lemma clean_body_error:
  "fst (clean_body root dry name d nm result fs) \<noteq> Inl (SourceMissing x)"
  by (auto simp: clean_body_def Let_def split: sum.splits)

lemma clean_entries_error:
  "fst (clean_entries root dry name d names result fs) \<noteq> Inl (SourceMissing x)"
proof (induction names arbitrary: result fs)
  case Nil
  then show ?case by simp
next
  case (Cons nm names)
  obtain r1 fs1 where b: "clean_body root dry name d nm result fs = (r1, fs1)"
    by (cases "clean_body root dry name d nm result fs")
  have "r1 \<noteq> Inl (SourceMissing x)" using clean_body_error[of root dry name d nm result fs x] b by simp
  then show ?case using b Cons.IH by (cases r1) auto
qed

lemma clean_agents_error:
  "fst (clean_agents root dry ags result fs) \<noteq> Inl (SourceMissing x)"
proof (induction ags arbitrary: result fs)
  case Nil
  then show ?case by simp
next
  case (Cons a ags)
  obtain name cfg where a: "a = (name, cfg)" by (cases a)
  show ?case
  proof (cases "existsSync fs (join [root, skillsDir cfg])")
    case False
    then show ?thesis using a Cons.IH by (simp add: Let_def)
  next
    case True
    show ?thesis
    proof (cases "readdirSync fs (join [root, skillsDir cfg])")
      case (Inl e)
      then show ?thesis using a True by (simp add: Let_def)
    next
      case (Inr entries)
      obtain r1 fs1 where
        b: "clean_entries root dry name (join [root, skillsDir cfg]) (map fst entries) result fs = (r1, fs1)"
        by (cases "clean_entries root dry name (join [root, skillsDir cfg]) (map fst entries) result fs")
      have "r1 \<noteq> Inl (SourceMissing x)"
        using clean_entries_error[of root dry name "join [root, skillsDir cfg]" "map fst entries" result fs x] b
        by simp
      then show ?thesis using a True Inr b Cons.IH by (cases r1) (auto simp: Let_def)
    qed
  qed
qed

lemma cleanSkills_error: "fst (cleanSkills root options fs) \<noteq> Inl (SourceMissing x)"
  by (simp add: cleanSkills_def clean_agents_error)

text \<open>
  Every symbolic link that \<open>syncSkills\<close> writes carries the text generated for
  the pair at hand; no other call creates a link.
\<close>

lemma lf_refl: "links_from T fs fs"
  by (simp add: links_from_def)

lemma lf_trans:
  assumes "links_from T fs fs1" and "links_from T fs1 fs2"
  shows "links_from T fs fs2"
  using assms unfolding links_from_def by blast

lemma lf_put:
  assumes "leafy v" and "is_leaf (get fs l)" and "\<forall>x. v = Some (Link x) \<longrightarrow> x \<in> T"
  shows "links_from T fs (put l v fs)"
  unfolding links_from_def
proof (intro allI impI)
  fix l' x
  assume k: "view (put l v fs) l' = Some (KLink x)"
  from view_put[OF assms(1,2), of l']
  consider "view (put l v fs) l' = view fs l'"
    | "l' = l" and "view (put l v fs) l' = map_option kind_of v" by blast
  then show "view fs l' = Some (KLink x) \<or> x \<in> T"
  proof cases
    case 1
    then show ?thesis using k by simp
  next
    case 2
    then have "map_option kind_of v = Some (KLink x)" using k by simp
    then obtain n where v: "v = Some n" and kn: "kind_of n = KLink x" by auto
    then have "n = Link x" by (cases n) simp_all
    then show ?thesis using assms(3) v by simp
  qed
qed

lemma lf_unlink:
  assumes "unlinkSync fs p = Inr fs'"
  shows "links_from T fs fs'"
proof -
  from assms have "\<exists>l. is_leaf (get fs l) \<and> fs' = put l None fs"
    by (auto simp: unlinkSync_def is_leaf_def split: sum.splits option.splits node.splits if_splits)
  then obtain l where "is_leaf (get fs l)" and "fs' = put l None fs" by blast
  then show ?thesis using lf_put[of None fs l T] by (simp add: leafy_def)
qed

lemma lf_symlink:
  assumes "symlinkSync fs x p = Inr fs'" and "x \<in> T"
  shows "links_from T fs fs'"
proof -
  from assms(1) obtain l where "get fs l = None" and "fs' = put l (Some (Link x)) fs"
    by (auto simp: symlinkSync_def split: sum.splits option.splits if_splits)
  then show ?thesis using lf_put[of "Some (Link x)" fs l T] assms(2)
    by (simp add: leafy_def is_leaf_def)
qed

lemma lf_ensure_dir:
  assumes "ensure_dir fs cs = Inr fs'"
  shows "links_from T fs fs'"
proof -
  from assms have "fs' = fs \<or> (\<exists>l. get fs l = None \<and> fs' = put l (Some (Dir True [])) fs)"
    by (auto simp: ensure_dir_def split: sum.splits option.splits node.splits)
  then show ?thesis using lf_put[of "Some (Dir True [])" fs _ T] lf_refl
    by (auto simp: leafy_def is_leaf_def)
qed

lemma lf_mkdir_from:
  "mkdir_from fs done cs = Inr fs' \<Longrightarrow> links_from T fs fs'"
proof (induction cs arbitrary: fs "done")
  case Nil
  then show ?case by (simp add: lf_refl)
next
  case (Cons c cs)
  from Cons.prems obtain fs1 where e: "ensure_dir fs (done @ [c]) = Inr fs1"
    and m: "mkdir_from fs1 (done @ [c]) cs = Inr fs'"
    by (auto split: sum.splits)
  from lf_trans[OF lf_ensure_dir[OF e] Cons.IH[OF m]] show ?case .
qed

lemma lf_sync_create:
  assumes "sync_create dry d src tgt entry result fs = (res, fs')" and "relative d src \<in> T"
  shows "links_from T fs fs'"
proof (cases dry)
  case True
  then show ?thesis using assms by (simp add: sync_create_def lf_refl)
next
  case False
  show ?thesis
  proof (cases "mkdirSync fs d")
    case (Inl e)
    then show ?thesis using assms False by (simp add: sync_create_def lf_refl)
  next
    case (Inr fs1)
    then have 1: "links_from T fs fs1"
      by (auto simp: mkdirSync_def lf_mkdir_from split: if_splits)
    show ?thesis
    proof (cases "symlinkSync fs1 (relative d src) tgt")
      case (Inl e)
      then show ?thesis using assms False Inr 1 by (simp add: sync_create_def)
    next
      case (Inr fs2)
      then have "links_from T fs1 fs2" using assms(2) by (rule lf_symlink)
      then show ?thesis using assms False \<open>mkdirSync fs d = Inr fs1\<close> Inr 1
        by (auto simp: sync_create_def intro: lf_trans)
    qed
  qed
qed

lemma lf_sync_body:
  assumes "sync_body root dry name d sk result fs = (res, fs')"
      and "expected root d sk \<in> T"
  shows "links_from T fs fs'"
proof -
  have t: "relative d (join [root, CANONICAL_SOURCE, sk]) \<in> T"
    using assms(2) by (simp add: expected_def)
  show ?thesis
  proof (cases "lstatSync fs (join [d, sk])")
    case (Inl e)
    from sync_body_absent[OF this, of root dry name result] assms(1)
    have "sync_create dry d (join [root, CANONICAL_SOURCE, sk]) (join [d, sk])
            (mk_entry root name d sk) result fs = (res, fs')" by simp
    then show ?thesis using t by (rule lf_sync_create)
  next
    case (Inr n)
    show ?thesis
    proof (cases "isSymbolicLink n")
      case False
      from sync_body_real[OF Inr False, of root dry name result] assms(1)
      show ?thesis by (simp add: lf_refl)
    next
      case True
      then obtain x where n: "n = Link x" by (cases n) (auto simp: isSymbolicLink_def)
      note b = sync_body_link[OF Inr[unfolded n], of root dry name result]
      show ?thesis
      proof (cases "x = relative d (join [root, CANONICAL_SOURCE, sk])")
        case True
        then show ?thesis using b assms(1) by (simp add: lf_refl)
      next
        case ne: False
        show ?thesis
        proof (cases dry)
          case True
          then have "sync_create dry d (join [root, CANONICAL_SOURCE, sk]) (join [d, sk])
                    (mk_entry root name d sk) result fs = (res, fs')"
            using b assms(1) ne by simp
          then show ?thesis using t by (rule lf_sync_create)
        next
          case False
          show ?thesis
          proof (cases "unlinkSync fs (join [d, sk])")
            case (Inl e)
            then show ?thesis using b assms(1) ne False by (simp add: lf_refl)
          next
            case (Inr fs0)
            have 1: "links_from T fs fs0" using Inr by (rule lf_unlink)
            have "sync_create dry d (join [root, CANONICAL_SOURCE, sk]) (join [d, sk])
                    (mk_entry root name d sk) result fs0 = (res, fs')"
              using b assms(1) ne False Inr by simp
            from lf_trans[OF 1 lf_sync_create[OF this t]] show ?thesis .
          qed
        qed
      qed
    qed
  qed
qed

lemma lf_sync_skills:
  "sync_skills root dry name d sks result fs = (res, fs') \<Longrightarrow>
   \<forall>sk \<in> set sks. expected root d sk \<in> T \<Longrightarrow> links_from T fs fs'"
proof (induction sks arbitrary: result fs)
  case Nil
  then show ?case by (simp add: lf_refl)
next
  case (Cons sk sks)
  obtain r1 fs1 where b: "sync_body root dry name d sk result fs = (r1, fs1)"
    by (cases "sync_body root dry name d sk result fs")
  have "expected root d sk \<in> T" using Cons.prems(2) by simp
  note 1 = lf_sync_body[OF b this]
  have rest: "\<forall>sk \<in> set sks. expected root d sk \<in> T" using Cons.prems(2) by simp
  show ?case
  proof (cases r1)
    case (Inl e)
    then show ?thesis using Cons.prems(1) b 1 by simp
  next
    case (Inr r)
    then have "sync_skills root dry name d sks r fs1 = (res, fs')" using Cons.prems(1) b by simp
    from lf_trans[OF 1 Cons.IH[OF this rest]] show ?thesis .
  qed
qed

lemma lf_sync_agents:
  "sync_agents root dry skills ags result fs = (res, fs') \<Longrightarrow>
   \<forall>a \<in> set ags. \<forall>sk \<in> set skills. expected root (mirror_root root (snd a)) sk \<in> T \<Longrightarrow>
   links_from T fs fs'"
proof (induction ags arbitrary: result fs)
  case Nil
  then show ?case by (simp add: lf_refl)
next
  case (Cons a ags)
  obtain name cfg where a: "a = (name, cfg)" by (cases a)
  obtain r1 fs1 where b: "sync_skills root dry name (join [root, skillsDir cfg]) skills result fs = (r1, fs1)"
    by (cases "sync_skills root dry name (join [root, skillsDir cfg]) skills result fs")
  have "\<forall>sk \<in> set skills. expected root (join [root, skillsDir cfg]) sk \<in> T"
    using Cons.prems(2) a by (simp add: mirror_root_def)
  note 1 = lf_sync_skills[OF b this]
  have rest: "\<forall>a \<in> set ags. \<forall>sk \<in> set skills. expected root (mirror_root root (snd a)) sk \<in> T"
    using Cons.prems(2) by simp
  show ?case
  proof (cases r1)
    case (Inl e)
    then show ?thesis using Cons.prems(1) a b 1 by simp
  next
    case (Inr r)
    then have "sync_agents root dry skills ags r fs1 = (res, fs')" using Cons.prems(1) a b by simp
    from lf_trans[OF 1 Cons.IH[OF this rest]] show ?thesis .
  qed
qed

lemma lf_syncSkills:
  assumes "discoverSkills fs root = Inr skills"
  shows "links_from (item_texts root options skills) fs (snd (syncSkills root options fs))"
proof -
  obtain res fs' where r: "sync_agents root (dryRun options) skills (targetAgents options) emptyResult fs = (res, fs')"
    by (cases "sync_agents root (dryRun options) skills (targetAgents options) emptyResult fs")
  have "\<forall>a \<in> set (targetAgents options). \<forall>sk \<in> set skills.
          expected root (mirror_root root (snd a)) sk \<in> item_texts root options skills"
    unfolding item_texts_def by blast
  from lf_sync_agents[OF r this] show ?thesis using assms r by (simp add: syncSkills_def)
qed

text \<open>
  On plain mirror roots the result of \<open>cleanSkills\<close> is determined by what the
  mirror roots hold.
\<close>

lemma cleanSkills_mirror_only:
  assumes "plain_mirrors fs root options" and "plain_mirrors fs0 root options"
      and "distinct (map comps (mirror_roots root options))"
      and "tidy_mirrors fs root options"
      and "\<forall>d \<in> set (mirror_roots root options). get fs0 (comps d) = get fs (comps d)"
  shows "fst (cleanSkills root options fs0) = fst (cleanSkills root options fs)"
proof -
  note ctx = plain_mirrors_ctx[OF assms(1)]
  note ctx0 = plain_mirrors_ctx[OF assms(2)]
  have d: "distinct (map (\<lambda>a. comps (mirror_root root (snd a))) (targetAgents options))"
    using assms(3) by (simp add: mirror_roots_def comp_def)
  have t: "\<forall>d' \<in> set (mirror_roots root options). \<forall>ok kids. get fs (comps d') = Some (Dir ok kids)
              \<longrightarrow> distinct (map fst kids) \<and> (\<forall>n \<in> set (map fst kids). valid_name n)"
  proof (intro ballI allI impI)
    fix d' ok kids
    assume d': "d' \<in> set (mirror_roots root options)"
      and k: "get fs (comps d') = Some (Dir ok kids)"
    from assms(4) d' have "case get fs (comps d') of
          Some (Dir ok kids) \<Rightarrow> distinct (map fst kids) \<and> (\<forall>n \<in> set (map fst kids). valid_name n)
        | _ \<Rightarrow> True"
      unfolding tidy_mirrors_def by blast
    then show "distinct (map fst kids) \<and> (\<forall>n \<in> set (map fst kids). valid_name n)"
      unfolding k by simp
  qed
  have t0: "\<forall>d' \<in> set (mirror_roots root options). \<forall>ok kids. get fs0 (comps d') = Some (Dir ok kids)
              \<longrightarrow> distinct (map fst kids) \<and> (\<forall>n \<in> set (map fst kids). valid_name n)"
    using t assms(5) by simp
  have s: "\<forall>a \<in> set (targetAgents options). plain fs (comps (mirror_root root (snd a)))
             \<and> get fs (comps (mirror_root root (snd a))) = get fs (comps (mirror_root root (snd a)))"
    using ctx(3,4) by simp
  have s0: "\<forall>a \<in> set (targetAgents options). plain fs0 (comps (mirror_root root (snd a)))
             \<and> get fs0 (comps (mirror_root root (snd a))) = get fs (comps (mirror_root root (snd a)))"
    using ctx0(3,4) assms(5) by simp
  have s00: "\<forall>a \<in> set (targetAgents options). plain fs0 (comps (mirror_root root (snd a)))
             \<and> get fs0 (comps (mirror_root root (snd a))) = get fs0 (comps (mirror_root root (snd a)))"
    using ctx0(3,4) by simp
  from clean_agents_modes[OF ctx(1,2,4) t ctx(3) d s, of emptyResult]
  obtain rA fA where A: "clean_agents root False (targetAgents options) emptyResult fs = (Inr rA, fA)"
    and A': "clean_agents root True (targetAgents options) emptyResult fs = (Inr rA, fs)" by blast
  from clean_agents_modes[OF ctx(1,2,4) t ctx(3) d s0, of emptyResult]
  obtain rB fB where B: "clean_agents root False (targetAgents options) emptyResult fs0 = (Inr rB, fB)"
    and B': "clean_agents root True (targetAgents options) emptyResult fs = (Inr rB, fs)" by blast
  from clean_agents_modes[OF ctx0(1,2,4) t0 ctx0(3) d s00, of emptyResult]
  obtain rC fC where C: "clean_agents root False (targetAgents options) emptyResult fs0 = (Inr rC, fC)"
    and C': "clean_agents root True (targetAgents options) emptyResult fs0 = (Inr rC, fs0)" by blast
  have "rB = rA" using A' B' by simp
  moreover have "rC = rB" using B C by simp
  ultimately show ?thesis using A A' C C'
    by (cases "dryRun options") (simp_all add: cleanSkills_def)
qed

section \<open>Running sync twice\<close>

text \<open>
  C1 (as amended). Let the selected mirror roots be plain paths of the file
  system, none strictly inside another, and let the items have file names. If
  a \<open>syncSkills\<close> that is not a preview returns a report, and the canonical
  source root lists the same items afterwards, then a second run with the
  same inputs changes nothing and returns a report without created and
  without failed outcomes: every pair is skipped, as ``already linked'' when
  its link path holds a symbolic link, which is the case for every pair the
  first run created, and as ``real directory exists, skipping'' otherwise.
\<close>

theorem sync_twice_all_skipped:
  assumes "plain_mirrors fs root options"
      and "discoverSkills fs root = Inr skills" and "\<forall>sk \<in> set skills. valid_name sk"
      and "\<not> dryRun options"
      and "syncSkills root options fs = (Inr r1, fs1)"
      and "discoverSkills fs1 root = Inr skills"
  shows "syncSkills root options fs1 = (Inr (all_skipped root options skills fs1), fs1)
       \<and> created (all_skipped root options skills fs1) = []
       \<and> failed (all_skipped root options skills fs1) = []
       \<and> (\<forall>e \<in> set (created r1). isSymlink fs1 (target e))"
proof -
  note ctx = plain_mirrors_ctx[OF assms(1)]
  note after = syncSkills_plain[OF assms(1,2,3,4,5)]
  have pp: "\<forall>a \<in> set (targetAgents options).
              plain fs1 (comps (mirror_root root (snd a))) \<and> plain_path (mirror_root root (snd a))"
    using after(1) ctx(1,3) by blast
  have "sync_agents root (dryRun options) skills (targetAgents options) emptyResult fs1 =
          (Inr (all_skipped root options skills fs1), fs1)"
    using sync_agents_settled[OF pp assms(3) after(2,6), of "dryRun options" emptyResult]
    by (simp add: all_skipped_def emptyResult_def)
  then have second: "syncSkills root options fs1 = (Inr (all_skipped root options skills fs1), fs1)"
    using assms(6) by (simp add: syncSkills_def)
  have links: "isSymlink fs1 (target e)" if e: "e \<in> set (created r1)" for e
  proof -
    from after(4) e obtain a sk where a: "a \<in> set (targetAgents options)" and sk: "sk \<in> set skills"
      and ee: "e = mk_entry root (fst a) (mirror_root root (snd a)) sk"
      and un: "\<not> settled_node (expected root (mirror_root root (snd a)) sk)
                 (look fs (comps (mirror_root root (snd a))) sk)"
      by blast
    let ?d = "mirror_root root (snd a)"
    have dD: "?d \<in> set (mirror_roots root options)" using ctx(3) a by simp
    have st: "settled_node (expected root ?d sk) (look fs1 (comps ?d) sk)"
      using after(2) a sk by blast
    have "look fs1 (comps ?d) sk = Some (Link (expected root ?d sk))"
      using after(3)[rule_format, OF dD, of sk] un st by auto
    from isSymlink_plain[OF _ _ _ _ this]
    have "isSymlink fs1 (join [?d, sk])"
      using after(1,6) ctx(1) dD assms(3) sk a by (simp add: isSymbolicLink_def)
    then show ?thesis using ee by (simp add: mk_entry_def)
  qed
  show ?thesis using second links by (simp add: all_skipped_def emptyResult_def)
qed

theorem sync_twice_all_skipped_witness:
  "plain_mirrors hybrid_fs ''/p'' demo_options
   \<and> discoverSkills hybrid_fs ''/p'' = Inr [''a'', ''b'']
   \<and> valid_name ''a'' \<and> valid_name ''b''
   \<and> \<not> dryRun demo_options
   \<and> syncSkills ''/p'' demo_options hybrid_fs = (Inr hybrid_report, hybrid_synced_fs)
   \<and> discoverSkills hybrid_synced_fs ''/p'' = Inr [''a'', ''b'']
   \<and> syncSkills ''/p'' demo_options hybrid_synced_fs = (Inr hybrid_second_report, hybrid_synced_fs)
   \<and> isSymlink hybrid_synced_fs ''/p/.claude/skills/a''"
proof -
  have h1: "plain_mirrors hybrid_fs ''/p'' demo_options" by code_simp
  have h2: "discoverSkills hybrid_fs ''/p'' = Inr [''a'', ''b'']" by code_simp
  have h3: "\<forall>sk \<in> set [''a'', ''b'']. valid_name sk" by code_simp
  have h4: "\<not> dryRun demo_options" by code_simp
  have h5: "syncSkills ''/p'' demo_options hybrid_fs = (Inr hybrid_report, hybrid_synced_fs)"
    by code_simp
  have h6: "discoverSkills hybrid_synced_fs ''/p'' = Inr [''a'', ''b'']" by code_simp
  have r: "all_skipped ''/p'' demo_options [''a'', ''b''] hybrid_synced_fs = hybrid_second_report"
    by code_simp
  have t: "target (hd (created hybrid_report)) = ''/p/.claude/skills/a''"
    by (simp add: hybrid_report_def)
  note c = sync_twice_all_skipped[OF h1 h2 h3 h4 h5 h6]
  have c1: "syncSkills ''/p'' demo_options hybrid_synced_fs = (Inr hybrid_second_report, hybrid_synced_fs)"
    using c r by simp
  have c2: "isSymlink hybrid_synced_fs ''/p/.claude/skills/a''"
    using c t by (simp add: hybrid_report_def)
  show ?thesis using h1 h2 h3 h4 h5 h6 c1 c2 by simp
qed

text \<open>
  With a real directory at a link path the second run does not report every
  pair as ``already linked''.
\<close>

theorem sync_twice_counterexample:
  "syncSkills ''/p'' demo_options hybrid_fs = (Inr hybrid_report, hybrid_synced_fs)
   \<and> syncSkills ''/p'' demo_options hybrid_synced_fs =
       (Inr \<lparr>created = [],
             skipped = [\<lparr>skill = ''a'', agent = ''claude-code'', source = ''/p/.agents/skills/a'',
                          target = ''/p/.claude/skills/a'', reason = Some ''already linked''\<rparr>,
                        \<lparr>skill = ''b'', agent = ''claude-code'', source = ''/p/.agents/skills/b'',
                          target = ''/p/.claude/skills/b'',
                          reason = Some ''real directory exists, skipping''\<rparr>],
             failed = []\<rparr>,
        hybrid_synced_fs)"
  by code_simp



section \<open>Real entries at link paths\<close>

text \<open>
  C2 (as amended). For every state, configuration and outcome of the run,
  \<open>syncSkills\<close> leaves at every location that holds a real entry (a regular
  file or a directory, not a symbolic link) an entry of the same type, a
  regular file with the same content: no real entry is removed or replaced.
  If moreover the selected mirror roots are plain paths, none strictly inside
  another, the items have file names and the run (not a preview) returns a
  report, then a real entry at the link path of a pair is the same after the
  run, with identical contents; the pair is reported as skipped with reason
  ``real directory exists, skipping'', and no created outcome has its link
  path.
\<close>

theorem sync_keeps_real_entry:
  "(\<not> free_spot (view fs l) \<longrightarrow> view (snd (syncSkills root options fs)) l = view fs l)
   \<and> (plain_mirrors fs root options
        \<and> discoverSkills fs root = Inr skills \<and> (\<forall>s \<in> set skills. valid_name s)
        \<and> \<not> dryRun options
        \<and> syncSkills root options fs = (Inr r, fs1)
        \<and> a \<in> set (targetAgents options) \<and> sk \<in> set skills
        \<and> lstatSync fs (join [mirror_root root (snd a), sk]) = Inr n \<and> \<not> isSymbolicLink n
      \<longrightarrow> lstatSync fs1 (join [mirror_root root (snd a), sk]) = Inr n
          \<and> (mk_entry root (fst a) (mirror_root root (snd a)) sk)
                \<lparr>reason := Some ''real directory exists, skipping''\<rparr> \<in> set (skipped r)
          \<and> (\<forall>e \<in> set (created r). target e \<noteq> join [mirror_root root (snd a), sk]))"
proof (rule conjI)
  show "\<not> free_spot (view fs l) \<longrightarrow> view (snd (syncSkills root options fs)) l = view fs l"
    using olc_syncSkills[of fs root options] by (auto simp: only_links_change_def)
next
  show "plain_mirrors fs root options
        \<and> discoverSkills fs root = Inr skills \<and> (\<forall>s \<in> set skills. valid_name s)
        \<and> \<not> dryRun options
        \<and> syncSkills root options fs = (Inr r, fs1)
        \<and> a \<in> set (targetAgents options) \<and> sk \<in> set skills
        \<and> lstatSync fs (join [mirror_root root (snd a), sk]) = Inr n \<and> \<not> isSymbolicLink n
      \<longrightarrow> lstatSync fs1 (join [mirror_root root (snd a), sk]) = Inr n
          \<and> (mk_entry root (fst a) (mirror_root root (snd a)) sk)
                \<lparr>reason := Some ''real directory exists, skipping''\<rparr> \<in> set (skipped r)
          \<and> (\<forall>e \<in> set (created r). target e \<noteq> join [mirror_root root (snd a), sk])"
  proof (rule impI)
    assume h: "plain_mirrors fs root options
        \<and> discoverSkills fs root = Inr skills \<and> (\<forall>s \<in> set skills. valid_name s)
        \<and> \<not> dryRun options
        \<and> syncSkills root options fs = (Inr r, fs1)
        \<and> a \<in> set (targetAgents options) \<and> sk \<in> set skills
        \<and> lstatSync fs (join [mirror_root root (snd a), sk]) = Inr n \<and> \<not> isSymbolicLink n"
    then have h1: "plain_mirrors fs root options"
      and h2: "discoverSkills fs root = Inr skills"
      and h3: "\<forall>s \<in> set skills. valid_name s"
      and h4: "\<not> dryRun options"
      and h5: "syncSkills root options fs = (Inr r, fs1)"
      and h6: "a \<in> set (targetAgents options)"
      and h7: "sk \<in> set skills"
      and h8: "lstatSync fs (join [mirror_root root (snd a), sk]) = Inr n"
      and h9: "\<not> isSymbolicLink n"
      by blast+
    note ctx = plain_mirrors_ctx[OF h1]
    note after = syncSkills_plain[OF h1 h2 h3 h4 h5]
    let ?d = "mirror_root root (snd a)"
    have dD: "?d \<in> set (mirror_roots root options)" using ctx(3) h6 by simp
    have vn: "valid_name sk" using h3 h7 by simp
    have pd: "plain_path ?d" and pl: "plain fs (comps ?d)" and pl1: "plain fs1 (comps ?d)"
      using ctx(1,4) after(1) dD by auto
    have lk: "look fs (comps ?d) sk = Some n" and len: "length (join [?d, sk]) < PATH_MAX"
      using lstat_plain_inr[OF pl pd vn h8] by simp_all
    have real: "settled_node x (Some n)" for x
      using h9 by (cases n) (auto simp: settled_node_def isSymbolicLink_def)
    have "look fs1 (comps ?d) sk = Some n"
      using after(3)[rule_format, OF dD, of sk] lk real by auto
    then have 1: "lstatSync fs1 (join [?d, sk]) = Inr n"
      using lstat_plain_some[OF pl1 pd vn len] by simp
    have 2: "(mk_entry root (fst a) ?d sk)\<lparr>reason := Some ''real directory exists, skipping''\<rparr>
               \<in> set (skipped r)"
      using after(5)[rule_format, OF h6 h7 lk real] h9 by (simp add: skip_reason_def)
    have 3: "target e \<noteq> join [?d, sk]" if e: "e \<in> set (created r)" for e
    proof
      assume eq: "target e = join [?d, sk]"
      from after(4) e obtain a' sk' where a': "a' \<in> set (targetAgents options)"
        and sk': "sk' \<in> set skills"
        and ee: "e = mk_entry root (fst a') (mirror_root root (snd a')) sk'"
        and un: "\<not> settled_node (expected root (mirror_root root (snd a')) sk')
                   (look fs (comps (mirror_root root (snd a'))) sk')"
        by blast
      let ?d' = "mirror_root root (snd a')"
      have "join [?d', sk'] = join [?d, sk]" using eq ee by (simp add: mk_entry_def)
      then have "comps (join [?d', sk']) = comps (join [?d, sk])" by simp
      moreover have "plain_path ?d'" "valid_name sk'" using ctx(1,3) a' h3 sk' by auto
      ultimately have "comps ?d' @ [sk'] = comps ?d @ [sk]"
        using comps_join_name pd vn by simp
      then have "look fs (comps ?d') sk' = Some n" using lk by simp
      then show False using un real by simp
    qed
    show "lstatSync fs1 (join [?d, sk]) = Inr n
          \<and> (mk_entry root (fst a) ?d sk)
                \<lparr>reason := Some ''real directory exists, skipping''\<rparr> \<in> set (skipped r)
          \<and> (\<forall>e \<in> set (created r). target e \<noteq> join [?d, sk])"
      using 1 2 3 by blast
  qed
qed

theorem sync_keeps_real_entry_witness:
  "\<not> free_spot (view hybrid_fs [''p'', ''.claude'', ''skills'', ''b''])
   \<and> view (snd (syncSkills ''/p'' demo_options hybrid_fs)) [''p'', ''.claude'', ''skills'', ''b'']
       = Some (KDir True)
   \<and> plain_mirrors hybrid_fs ''/p'' demo_options
   \<and> discoverSkills hybrid_fs ''/p'' = Inr [''a'', ''b'']
   \<and> valid_name ''a'' \<and> valid_name ''b''
   \<and> \<not> dryRun demo_options
   \<and> syncSkills ''/p'' demo_options hybrid_fs = (Inr hybrid_report, hybrid_synced_fs)
   \<and> lstatSync hybrid_fs ''/p/.claude/skills/b''
       = Inr (Dir True [(''SKILL.md'', File ''custom content'')])
   \<and> lstatSync hybrid_synced_fs ''/p/.claude/skills/b''
       = Inr (Dir True [(''SKILL.md'', File ''custom content'')])
   \<and> \<lparr>skill = ''b'', agent = ''claude-code'', source = ''/p/.agents/skills/b'',
        target = ''/p/.claude/skills/b'', reason = Some ''real directory exists, skipping''\<rparr>
       \<in> set (skipped hybrid_report)
   \<and> ''/p/.claude/skills/b'' \<notin> target ` set (created hybrid_report)"
proof -
  let ?a = "(''claude-code'', \<lparr>skillsDir = ''.claude/skills''\<rparr>)"
  let ?n = "Dir True [(''SKILL.md'', File ''custom content'')]"
  have v0: "view hybrid_fs [''p'', ''.claude'', ''skills'', ''b''] = Some (KDir True)" by code_simp
  have h0: "\<not> free_spot (view hybrid_fs [''p'', ''.claude'', ''skills'', ''b''])"
    unfolding v0 by (simp add: free_spot_def)
  have h1: "plain_mirrors hybrid_fs ''/p'' demo_options" by code_simp
  have h2: "discoverSkills hybrid_fs ''/p'' = Inr [''a'', ''b'']" by code_simp
  have h3: "\<forall>s \<in> set [''a'', ''b'']. valid_name s" by code_simp
  have h4: "\<not> dryRun demo_options" by code_simp
  have h5: "syncSkills ''/p'' demo_options hybrid_fs = (Inr hybrid_report, hybrid_synced_fs)"
    by code_simp
  have h6: "?a \<in> set (targetAgents demo_options)" by code_simp
  have h7: "''b'' \<in> set [''a'', ''b'']" by simp
  have m: "join [mirror_root ''/p'' (snd ?a), ''b''] = ''/p/.claude/skills/b''" by code_simp
  have e: "mk_entry ''/p'' (fst ?a) (mirror_root ''/p'' (snd ?a)) ''b''
             \<lparr>reason := Some ''real directory exists, skipping''\<rparr>
           = \<lparr>skill = ''b'', agent = ''claude-code'', source = ''/p/.agents/skills/b'',
               target = ''/p/.claude/skills/b'',
               reason = Some ''real directory exists, skipping''\<rparr>" by code_simp
  have h8: "lstatSync hybrid_fs (join [mirror_root ''/p'' (snd ?a), ''b'']) = Inr ?n"
    unfolding m by code_simp
  have h9: "\<not> isSymbolicLink ?n" by (simp add: isSymbolicLink_def)
  note inst = sync_keeps_real_entry[where fs = hybrid_fs and root = "''/p''"
      and options = demo_options and l = "[''p'', ''.claude'', ''skills'', ''b'']"
      and skills = "[''a'', ''b'']" and r = hybrid_report and ?fs1.0 = hybrid_synced_fs
      and a = ?a and sk = "''b''" and n = ?n]
  have c0: "view (snd (syncSkills ''/p'' demo_options hybrid_fs)) [''p'', ''.claude'', ''skills'', ''b'']
              = Some (KDir True)"
    using inst[THEN conjunct1] h0 v0 by simp
  have c: "lstatSync hybrid_synced_fs (join [mirror_root ''/p'' (snd ?a), ''b'']) = Inr ?n
          \<and> (mk_entry ''/p'' (fst ?a) (mirror_root ''/p'' (snd ?a)) ''b'')
                \<lparr>reason := Some ''real directory exists, skipping''\<rparr> \<in> set (skipped hybrid_report)
          \<and> (\<forall>e \<in> set (created hybrid_report).
                target e \<noteq> join [mirror_root ''/p'' (snd ?a), ''b''])"
    using inst[THEN conjunct2] h1 h2 h3 h4 h5 h6 h7 h8 h9 by blast
  have c1: "lstatSync hybrid_synced_fs ''/p/.claude/skills/b'' = Inr ?n"
    using c unfolding m by blast
  have c2: "\<lparr>skill = ''b'', agent = ''claude-code'', source = ''/p/.agents/skills/b'',
        target = ''/p/.claude/skills/b'', reason = Some ''real directory exists, skipping''\<rparr>
       \<in> set (skipped hybrid_report)"
    using c unfolding m e by blast
  have c3: "''/p/.claude/skills/b'' \<notin> target ` set (created hybrid_report)"
  proof
    assume "''/p/.claude/skills/b'' \<in> target ` set (created hybrid_report)"
    then obtain x where x: "x \<in> set (created hybrid_report)"
      and t: "target x = ''/p/.claude/skills/b''" by (auto simp only: image_iff)
    from c[unfolded m] have "\<forall>e \<in> set (created hybrid_report). target e \<noteq> ''/p/.claude/skills/b''"
      by (rule conjunct2[THEN conjunct2])
    then show False using x t by blast
  qed
  have h8': "lstatSync hybrid_fs ''/p/.claude/skills/b'' = Inr ?n" using h8 unfolding m .
  show ?thesis using h0 c0 h1 h2 h3 h4 h5 h8' c1 c2 c3 by simp
qed

text \<open>
  With nested mirror roots the real directory at a link path is still there
  after the run, and its pair is skipped, but its contents are not identical:
  the run has created a link inside it for the other agent. The same happens
  with the agents of the registry when the mirror root of one is reached
  through a symbolic link into that directory.
\<close>

theorem real_entry_contents_counterexample:
  "lstatSync nested_fs ''/p/m/a'' = Inr (Dir True [(''SKILL.md'', File ''custom content'')])
   \<and> syncSkills ''/p'' nested_options nested_fs =
       (Inr \<lparr>created = [\<lparr>skill = ''a'', agent = ''inner'', source = ''/p/.agents/skills/a'',
                          target = ''/p/m/a/a'', reason = None\<rparr>],
             skipped = [\<lparr>skill = ''a'', agent = ''outer'', source = ''/p/.agents/skills/a'',
                          target = ''/p/m/a'',
                          reason = Some ''real directory exists, skipping''\<rparr>],
             failed = []\<rparr>,
        nested_synced_fs)
   \<and> lstatSync nested_synced_fs ''/p/m/a'' =
       Inr (Dir True [(''SKILL.md'', File ''custom content''),
                      (''a'', Link ''../../.agents/skills/a'')])
   \<and> lstatSync aliased_fs ''/p/.claude/skills/a'' =
       Inr (Dir True [(''SKILL.md'', File ''custom content'')])
   \<and> syncSkills ''/p'' registry_options aliased_fs =
       (Inr \<lparr>created = [\<lparr>skill = ''a'', agent = ''opencode'', source = ''/p/.agents/skills/a'',
                          target = ''/p/.opencode/skills/a'', reason = None\<rparr>],
             skipped = [\<lparr>skill = ''a'', agent = ''claude-code'', source = ''/p/.agents/skills/a'',
                          target = ''/p/.claude/skills/a'',
                          reason = Some ''real directory exists, skipping''\<rparr>],
             failed = []\<rparr>,
        aliased_synced_fs)
   \<and> lstatSync aliased_synced_fs ''/p/.claude/skills/a'' =
       Inr (Dir True [(''SKILL.md'', File ''custom content''),
                      (''skills'', Dir True [(''a'', Link ''../../.agents/skills/a'')])])"
  by code_simp
section \<open>Preview and real run\<close>

text \<open>
  C4 (as amended). For every input, \<open>syncSkills\<close> and \<open>cleanSkills\<close> with the
  preview flag leave the file system as it is. When the selected mirror roots
  are plain paths, pairwise different and none strictly inside another, and
  the canonical source root lists items with pairwise different file names
  (for \<open>cleanSkills\<close>: the mirror roots list such entries), then every report
  that the run without the flag returns is the report that the preview on the
  same state returns.
\<close>

theorem preview_changes_nothing:
  "(dryRun options \<longrightarrow>
      snd (syncSkills root options fs) = fs \<and> snd (cleanSkills root options fs) = fs)
   \<and> (\<forall>skills r fs'.
        plain_mirrors fs root options \<and> distinct (map comps (mirror_roots root options))
        \<and> discoverSkills fs root = Inr skills \<and> distinct skills
        \<and> (\<forall>s \<in> set skills. valid_name s)
        \<and> syncSkills root (options\<lparr>dryRun := False\<rparr>) fs = (Inr r, fs')
      \<longrightarrow> syncSkills root (options\<lparr>dryRun := True\<rparr>) fs = (Inr r, fs))
   \<and> (\<forall>r fs'.
        plain_mirrors fs root options \<and> distinct (map comps (mirror_roots root options))
        \<and> tidy_mirrors fs root options
        \<and> cleanSkills root (options\<lparr>dryRun := False\<rparr>) fs = (Inr r, fs')
      \<longrightarrow> cleanSkills root (options\<lparr>dryRun := True\<rparr>) fs = (Inr r, fs))"
proof (intro conjI impI allI)
  assume "dryRun options"
  then show "snd (syncSkills root options fs) = fs" by (rule syncSkills_dry)
next
  assume "dryRun options"
  then show "snd (cleanSkills root options fs) = fs" by (rule cleanSkills_dry)
next
  fix skills r fs'
  assume h: "plain_mirrors fs root options \<and> distinct (map comps (mirror_roots root options))
        \<and> discoverSkills fs root = Inr skills \<and> distinct skills
        \<and> (\<forall>s \<in> set skills. valid_name s)
        \<and> syncSkills root (options\<lparr>dryRun := False\<rparr>) fs = (Inr r, fs')"
  then have h1: "plain_mirrors fs root options"
    and h2: "distinct (map comps (mirror_roots root options))"
    and h3: "discoverSkills fs root = Inr skills"
    and h4: "distinct skills"
    and h5: "\<forall>s \<in> set skills. valid_name s"
    and h6: "syncSkills root (options\<lparr>dryRun := False\<rparr>) fs = (Inr r, fs')"
    by blast+
  show "syncSkills root (options\<lparr>dryRun := True\<rparr>) fs = (Inr r, fs)"
    using h1 h2 h3 h4 h5 h6 by (rule syncSkills_modes)
next
  fix r fs'
  assume h: "plain_mirrors fs root options \<and> distinct (map comps (mirror_roots root options))
        \<and> tidy_mirrors fs root options
        \<and> cleanSkills root (options\<lparr>dryRun := False\<rparr>) fs = (Inr r, fs')"
  then have h1: "plain_mirrors fs root options"
    and h2: "distinct (map comps (mirror_roots root options))"
    and h3: "tidy_mirrors fs root options"
    and h4: "cleanSkills root (options\<lparr>dryRun := False\<rparr>) fs = (Inr r, fs')"
    by blast+
  from cleanSkills_modes[OF h1 h2 h3] h4
  show "cleanSkills root (options\<lparr>dryRun := True\<rparr>) fs = (Inr r, fs)" by auto
qed

theorem preview_changes_nothing_witness:
  "dryRun preview_options
   \<and> snd (syncSkills ''/p'' preview_options mixed_fs) = mixed_fs
   \<and> snd (cleanSkills ''/p'' preview_options mixed_fs) = mixed_fs
   \<and> plain_mirrors mixed_fs ''/p'' preview_options
   \<and> distinct (map comps (mirror_roots ''/p'' preview_options))
   \<and> discoverSkills mixed_fs ''/p'' = Inr [''a'', ''b'']
   \<and> valid_name ''a'' \<and> valid_name ''b''
   \<and> tidy_mirrors mixed_fs ''/p'' preview_options
   \<and> syncSkills ''/p'' (preview_options\<lparr>dryRun := False\<rparr>) mixed_fs
        = (Inr mixed_sync_report, mixed_synced_fs)
   \<and> syncSkills ''/p'' (preview_options\<lparr>dryRun := True\<rparr>) mixed_fs = (Inr mixed_sync_report, mixed_fs)
   \<and> cleanSkills ''/p'' (preview_options\<lparr>dryRun := False\<rparr>) mixed_fs
        = (Inr mixed_clean_report, mixed_cleaned_fs)
   \<and> cleanSkills ''/p'' (preview_options\<lparr>dryRun := True\<rparr>) mixed_fs = (Inr mixed_clean_report, mixed_fs)"
proof -
  have h0: "dryRun preview_options" by code_simp
  have h1: "plain_mirrors mixed_fs ''/p'' preview_options" by code_simp
  have h2: "distinct (map comps (mirror_roots ''/p'' preview_options))" by code_simp
  have h3: "discoverSkills mixed_fs ''/p'' = Inr [''a'', ''b'']" by code_simp
  have h4: "distinct [''a'', ''b'']" by simp
  have h5: "\<forall>s \<in> set [''a'', ''b'']. valid_name s" by code_simp
  have h6: "tidy_mirrors mixed_fs ''/p'' preview_options" by code_simp
  have s0: "syncSkills ''/p'' (preview_options\<lparr>dryRun := False\<rparr>) mixed_fs
              = (Inr mixed_sync_report, mixed_synced_fs)" by code_simp
  have c0: "cleanSkills ''/p'' (preview_options\<lparr>dryRun := False\<rparr>) mixed_fs
              = (Inr mixed_clean_report, mixed_cleaned_fs)" by code_simp
  note inst = preview_changes_nothing[where options = preview_options and root = "''/p''"
      and fs = mixed_fs]
  have a: "snd (syncSkills ''/p'' preview_options mixed_fs) = mixed_fs
           \<and> snd (cleanSkills ''/p'' preview_options mixed_fs) = mixed_fs"
    using inst[THEN conjunct1] h0 by blast
  have s: "syncSkills ''/p'' (preview_options\<lparr>dryRun := True\<rparr>) mixed_fs
             = (Inr mixed_sync_report, mixed_fs)"
    using inst[THEN conjunct2, THEN conjunct1, rule_format,
               of "[''a'', ''b'']" mixed_sync_report mixed_synced_fs] h1 h2 h3 h4 h5 s0 by blast
  have c: "cleanSkills ''/p'' (preview_options\<lparr>dryRun := True\<rparr>) mixed_fs
             = (Inr mixed_clean_report, mixed_fs)"
    using inst[THEN conjunct2, THEN conjunct2, rule_format,
               of mixed_clean_report mixed_cleaned_fs] h1 h2 h6 c0 by blast
  show ?thesis using h0 a h1 h2 h3 h5 h6 s0 s c0 c by simp
qed

text \<open>
  Two agents that share a mirror root: the preview reports the link of the
  second agent as created (for \<open>cleanSkills\<close>: as removed), the real run
  finds the work done by the first agent and reports it as skipped (for
  \<open>cleanSkills\<close>: does not report it at all). And where \<^verbatim>\<open>.claude\<close> is a
  regular file the preview reports a created link while the real run raises.
\<close>

theorem preview_report_counterexample:
  "syncSkills ''/p'' (shared_options\<lparr>dryRun := True\<rparr>) single_fs =
     (Inr \<lparr>created = [\<lparr>skill = ''a'', agent = ''claude-code'', source = ''/p/.agents/skills/a'',
                        target = ''/p/.claude/skills/a'', reason = None\<rparr>,
                      \<lparr>skill = ''a'', agent = ''claude-fork'', source = ''/p/.agents/skills/a'',
                        target = ''/p/.claude/skills/a'', reason = None\<rparr>],
           skipped = [], failed = []\<rparr>, single_fs)
   \<and> syncSkills ''/p'' (shared_options\<lparr>dryRun := False\<rparr>) single_fs =
     (Inr \<lparr>created = [\<lparr>skill = ''a'', agent = ''claude-code'', source = ''/p/.agents/skills/a'',
                        target = ''/p/.claude/skills/a'', reason = None\<rparr>],
           skipped = [\<lparr>skill = ''a'', agent = ''claude-fork'', source = ''/p/.agents/skills/a'',
                        target = ''/p/.claude/skills/a'', reason = Some ''already linked''\<rparr>],
           failed = []\<rparr>, single_synced_fs)
   \<and> cleanSkills ''/p'' (shared_options\<lparr>dryRun := True\<rparr>) single_synced_fs =
     (Inr \<lparr>created = [\<lparr>skill = ''a'', agent = ''claude-code'', source = ''/p/.agents/skills/a'',
                        target = ''/p/.claude/skills/a'', reason = None\<rparr>,
                      \<lparr>skill = ''a'', agent = ''claude-fork'', source = ''/p/.agents/skills/a'',
                        target = ''/p/.claude/skills/a'', reason = None\<rparr>],
           skipped = [], failed = []\<rparr>, single_synced_fs)
   \<and> cleanSkills ''/p'' (shared_options\<lparr>dryRun := False\<rparr>) single_synced_fs =
     (Inr \<lparr>created = [\<lparr>skill = ''a'', agent = ''claude-code'', source = ''/p/.agents/skills/a'',
                        target = ''/p/.claude/skills/a'', reason = None\<rparr>],
           skipped = [], failed = []\<rparr>, single_cleaned_fs)
   \<and> syncSkills ''/p'' (demo_options\<lparr>dryRun := True\<rparr>) blocked_fs =
     (Inr \<lparr>created = [\<lparr>skill = ''a'', agent = ''claude-code'', source = ''/p/.agents/skills/a'',
                        target = ''/p/.claude/skills/a'', reason = None\<rparr>],
           skipped = [], failed = []\<rparr>, blocked_fs)
   \<and> syncSkills ''/p'' (demo_options\<lparr>dryRun := False\<rparr>) blocked_fs = (Inl (Sys ENOTDIR), blocked_fs)"
  by code_simp

section \<open>What clean removes\<close>

text \<open>
  C3. A link in a mirror root whose destination resolves to
  \<^verbatim>\<open>/p/.agents/skills-archive/old\<close>, outside the canonical source root
  \<^verbatim>\<open>/p/.agents/skills\<close>, is removed by \<open>cleanSkills\<close>: the test is a prefix test
  on the characters of the two paths.
\<close>

theorem clean_removes_link_to_sibling:
  "join [''/p/.claude/skills'', ''../../.agents/skills-archive/old''] = ''/p/.agents/skills-archive/old''
   \<and> join [''/p'', CANONICAL_SOURCE] = ''/p/.agents/skills''
   \<and> cleanSkills ''/p'' demo_options sibling_fs =
       (Inr \<lparr>created = [\<lparr>skill = ''old'', agent = ''claude-code'',
                           source = ''/p/.agents/skills/old'', target = ''/p/.claude/skills/old'',
                           reason = None\<rparr>],
             skipped = [], failed = []\<rparr>,
        Dir True [(''p'', Dir True
          [(''.agents'', Dir True
             [(''skills'', Dir True [(''a'', Dir True [])]),
              (''skills-archive'', Dir True [(''old'', Dir True [(''SKILL.md'', File ''# old'')])])]),
           (''.claude'', Dir True [(''skills'', Dir True [])])])])"
  by code_simp


section \<open>Status after sync\<close>

text \<open>
  C6 (as amended). Let the selected mirror roots be plain paths of the file
  system, none strictly inside another, and let the items have file names. If
  a \<open>syncSkills\<close> that is not a preview returns a report, and the canonical
  source root lists the same items afterwards, then \<open>getStatus\<close> reports every
  item as \<open>linked\<close> for every selected agent, also those it would have
  reported as \<open>unlinked\<close> or \<open>wrong\<close> before; and what stood at the link path
  of an item that was linked before (a link with the generated text, or a real
  entry) stands there unchanged.
\<close>

theorem sync_then_status_linked:
  assumes "plain_mirrors fs root options"
      and "discoverSkills fs root = Inr skills" and "\<forall>sk \<in> set skills. valid_name sk"
      and "\<not> dryRun options"
      and "syncSkills root options fs = (Inr r, fs1)"
      and "discoverSkills fs1 root = Inr skills"
  shows "getStatus root options fs1 = Inr (map (all_linked skills) (targetAgents options))
       \<and> (\<forall>a \<in> set (targetAgents options). \<forall>sk \<in> set skills. \<forall>n.
             lstatSync fs (join [mirror_root root (snd a), sk]) = Inr n
             \<longrightarrow> (isSymbolicLink n \<longrightarrow> n = Link (expected root (mirror_root root (snd a)) sk))
             \<longrightarrow> lstatSync fs1 (join [mirror_root root (snd a), sk]) = Inr n)"
proof -
  note ctx = plain_mirrors_ctx[OF assms(1)]
  note after = syncSkills_plain[OF assms(1,2,3,4,5)]
  have pp: "\<forall>a \<in> set (targetAgents options).
              plain fs1 (comps (mirror_root root (snd a))) \<and> plain_path (mirror_root root (snd a))"
    using after(1) ctx(1,3) by blast
  have "status_agents root fs1 skills (targetAgents options) [] =
          Inr ([] @ map (all_linked skills) (targetAgents options))"
    using status_agents_settled[OF pp assms(3) after(2,6)] .
  then have st: "getStatus root options fs1 = Inr (map (all_linked skills) (targetAgents options))"
    using assms(6) by (simp add: getStatus_def)
  have keep: "lstatSync fs1 (join [mirror_root root (snd a), sk]) = Inr n"
    if a: "a \<in> set (targetAgents options)" and sk: "sk \<in> set skills"
      and n: "lstatSync fs (join [mirror_root root (snd a), sk]) = Inr n"
      and ok: "isSymbolicLink n \<longrightarrow> n = Link (expected root (mirror_root root (snd a)) sk)" for a sk n
  proof -
    let ?d = "mirror_root root (snd a)"
    have dD: "?d \<in> set (mirror_roots root options)" using ctx(3) a by simp
    have vn: "valid_name sk" using assms(3) sk by simp
    have pd: "plain_path ?d" and pl: "plain fs (comps ?d)" and pl1: "plain fs1 (comps ?d)"
      using ctx(1,4) after(1) dD by auto
    have lk: "look fs (comps ?d) sk = Some n" and len: "length (join [?d, sk]) < PATH_MAX"
      using lstat_plain_inr[OF pl pd vn n] by simp_all
    have "settled_node (expected root ?d sk) (look fs (comps ?d) sk)"
      using lk ok by (cases n) (auto simp: settled_node_def isSymbolicLink_def)
    then have "look fs1 (comps ?d) sk = Some n"
      using after(3)[rule_format, OF dD, of sk] lk by auto
    then show ?thesis using lstat_plain_some[OF pl1 pd vn len] by simp
  qed
  show ?thesis using st keep by blast
qed

theorem sync_then_status_linked_witness:
  "plain_mirrors stale_fs ''/p'' demo_options
   \<and> discoverSkills stale_fs ''/p'' = Inr [''a'', ''b'', ''c'']
   \<and> valid_name ''a'' \<and> valid_name ''b'' \<and> valid_name ''c''
   \<and> \<not> dryRun demo_options
   \<and> syncSkills ''/p'' demo_options stale_fs = (Inr stale_report, stale_synced_fs)
   \<and> discoverSkills stale_synced_fs ''/p'' = Inr [''a'', ''b'', ''c'']
   \<and> getStatus ''/p'' demo_options stale_fs =
       Inr [\<lparr>st_agent = ''claude-code'', st_skillsDir = ''.claude/skills'',
              linked = [''c''], unlinked = [''b''], wrong = [''a'']\<rparr>]
   \<and> getStatus ''/p'' demo_options stale_synced_fs =
       Inr [\<lparr>st_agent = ''claude-code'', st_skillsDir = ''.claude/skills'',
              linked = [''a'', ''b'', ''c''], unlinked = [], wrong = []\<rparr>]
   \<and> lstatSync stale_synced_fs ''/p/.claude/skills/c'' =
       Inr (Dir True [(''SKILL.md'', File ''custom content'')])"
proof -
  have h1: "plain_mirrors stale_fs ''/p'' demo_options" by code_simp
  have h2: "discoverSkills stale_fs ''/p'' = Inr [''a'', ''b'', ''c'']" by code_simp
  have h3: "\<forall>sk \<in> set [''a'', ''b'', ''c'']. valid_name sk" by code_simp
  have h4: "\<not> dryRun demo_options" by code_simp
  have h5: "syncSkills ''/p'' demo_options stale_fs = (Inr stale_report, stale_synced_fs)"
    by code_simp
  have h6: "discoverSkills stale_synced_fs ''/p'' = Inr [''a'', ''b'', ''c'']" by code_simp
  have before: "getStatus ''/p'' demo_options stale_fs =
       Inr [\<lparr>st_agent = ''claude-code'', st_skillsDir = ''.claude/skills'',
              linked = [''c''], unlinked = [''b''], wrong = [''a'']\<rparr>]"
    by code_simp
  have ta: "targetAgents demo_options = [(''claude-code'', \<lparr>skillsDir = ''.claude/skills''\<rparr>)]"
    by code_simp
  have j: "join [mirror_root ''/p'' \<lparr>skillsDir = ''.claude/skills''\<rparr>, ''c''] = ''/p/.claude/skills/c''"
    by code_simp
  have l: "lstatSync stale_fs ''/p/.claude/skills/c'' =
             Inr (Dir True [(''SKILL.md'', File ''custom content'')])"
    by code_simp
  note c = sync_then_status_linked[OF h1 h2 h3 h4 h5 h6]
  have c1: "getStatus ''/p'' demo_options stale_synced_fs =
       Inr [\<lparr>st_agent = ''claude-code'', st_skillsDir = ''.claude/skills'',
              linked = [''a'', ''b'', ''c''], unlinked = [], wrong = []\<rparr>]"
    using c by (simp add: ta all_linked_def)
  have c2: "lstatSync stale_synced_fs ''/p/.claude/skills/c'' =
       Inr (Dir True [(''SKILL.md'', File ''custom content'')])"
    using c[THEN conjunct2, rule_format, of "(''claude-code'', \<lparr>skillsDir = ''.claude/skills''\<rparr>)"
              "''c''" "Dir True [(''SKILL.md'', File ''custom content'')]"] l
    by (simp add: ta j isSymbolicLink_def)
  show ?thesis using h1 h2 h3 h4 h5 h6 before c1 c2 by simp
qed

text \<open>
  Where \<^verbatim>\<open>.claude\<close> is a regular file the item is reported \<open>unlinked\<close>, and
  \<open>syncSkills\<close> raises the error of \<^verbatim>\<open>mkdirSync\<close> and changes nothing: the item
  stays \<open>unlinked\<close>.
\<close>

theorem status_after_sync_counterexample:
  "getStatus ''/p'' demo_options blocked_fs =
     Inr [\<lparr>st_agent = ''claude-code'', st_skillsDir = ''.claude/skills'',
            linked = [], unlinked = [''a''], wrong = []\<rparr>]
   \<and> syncSkills ''/p'' demo_options blocked_fs = (Inl (Sys ENOTDIR), blocked_fs)"
  by code_simp


section \<open>Recognising a correct link\<close>

text \<open>
  C7. Take any pair of a run, with \<open>exp\<close> the relative path the engine
  generates from the agent's mirror root to the canonical item. If \<^verbatim>\<open>lstat\<close>
  finds a symbolic link with stored text \<open>x\<close> at the link path, \<open>getStatus\<close>
  puts the item into the agent's \<open>linked\<close> bucket exactly when \<open>x\<close> equals
  \<open>exp\<close> character for character, and into \<open>wrong\<close> exactly when it does
  not; it is never \<open>unlinked\<close>. If \<open>syncSkills\<close> finds that link when it comes
  to the pair, every report it returns has the pair as skipped with reason
  ``already linked'' exactly when \<open>x\<close> equals \<open>exp\<close>, and as created exactly
  when it does not; the pair has no other outcome. Only the stored text is
  consulted: nothing is assumed about what the link points to.
\<close>

theorem link_correct_iff_text_equal:
  assumes "discoverSkills fs root = Inr (sks1 @ sk # sks2)" and "distinct (sks1 @ sk # sks2)"
      and "targetAgents options = pre @ (name, cfg) # post"
      and "distinct (map fst (targetAgents options))"
      and "d = join [root, skillsDir cfg]"
      and "exp = relative d (join [root, CANONICAL_SOURCE, sk])"
  shows "(\<forall>x. lstatSync fs (join [d, sk]) = Inr (Link x) \<longrightarrow>
           (\<exists>sts. getStatus root options fs = Inr sts
              \<and> length sts = length (targetAgents options)
              \<and> st_agent (sts ! length pre) = name
              \<and> (sk \<in> set (linked (sts ! length pre)) \<longleftrightarrow> x = exp)
              \<and> (sk \<in> set (wrong (sts ! length pre)) \<longleftrightarrow> x \<noteq> exp)
              \<and> sk \<notin> set (unlinked (sts ! length pre))))
       \<and> (\<forall>x r1 fs1 r fs'.
             sync_before root (dryRun options) (sks1 @ sk # sks2) pre name cfg sks1 fs = (Inr r1, fs1)
             \<and> lstatSync fs1 (join [d, sk]) = Inr (Link x)
             \<and> syncSkills root options fs = (Inr r, fs') \<longrightarrow>
               (\<lparr>skill = sk, agent = name, source = join [root, CANONICAL_SOURCE, sk],
                  target = join [d, sk], reason = Some ''already linked''\<rparr> \<in> set (skipped r)
                  \<longleftrightarrow> x = exp)
             \<and> (\<lparr>skill = sk, agent = name, source = join [root, CANONICAL_SOURCE, sk],
                  target = join [d, sk], reason = None\<rparr> \<in> set (created r)
                  \<longleftrightarrow> x \<noteq> exp)
             \<and> (\<forall>e \<in> set (skipped r). skill e = sk \<and> agent e = name \<longrightarrow>
                   x = exp \<and> reason e = Some ''already linked'')
             \<and> (\<forall>e \<in> set (created r). skill e = sk \<and> agent e = name \<longrightarrow> x \<noteq> exp)
             \<and> failed r = [])"
proof (intro conjI allI impI)
  fix x assume l: "lstatSync fs (join [d, sk]) = Inr (Link x)"
  from getStatus_pair[OF assms(1,3)] obtain sts where
    g: "getStatus root options fs = Inr sts" and
    len: "length sts = length (targetAgents options)" and
    nth: "sts ! length pre = status_of root fs (sks1 @ sk # sks2) (name, cfg)" by blast
  have m: "mirror_root root cfg = d" using assms(5) by (simp add: mirror_root_def)
  have e: "expected root d sk = exp" using assms(6) by (simp add: expected_def)
  have 1: "is_linked root d fs sk \<longleftrightarrow> x = exp" using l e by (simp add: is_linked_def)
  have 2: "is_wrong root d fs sk \<longleftrightarrow> x \<noteq> exp" using l e by (simp add: is_wrong_def)
  have 3: "\<not> is_unlinked d fs sk" using l by (simp add: is_unlinked_def)
  have "st_agent (sts ! length pre) = name
      \<and> (sk \<in> set (linked (sts ! length pre)) \<longleftrightarrow> x = exp)
      \<and> (sk \<in> set (wrong (sts ! length pre)) \<longleftrightarrow> x \<noteq> exp)
      \<and> sk \<notin> set (unlinked (sts ! length pre))"
    unfolding nth using 1 2 3 by (simp add: status_of_def m)
  then show "\<exists>sts. getStatus root options fs = Inr sts
              \<and> length sts = length (targetAgents options)
              \<and> st_agent (sts ! length pre) = name
              \<and> (sk \<in> set (linked (sts ! length pre)) \<longleftrightarrow> x = exp)
              \<and> (sk \<in> set (wrong (sts ! length pre)) \<longleftrightarrow> x \<noteq> exp)
              \<and> sk \<notin> set (unlinked (sts ! length pre))"
    using g len by blast
next
  fix x r1 fs1 r fs'
  assume a: "sync_before root (dryRun options) (sks1 @ sk # sks2) pre name cfg sks1 fs = (Inr r1, fs1)
             \<and> lstatSync fs1 (join [d, sk]) = Inr (Link x)
             \<and> syncSkills root options fs = (Inr r, fs')"
  let ?es = "\<lparr>skill = sk, agent = name, source = join [root, CANONICAL_SOURCE, sk],
                  target = join [d, sk], reason = Some ''already linked''\<rparr>"
  let ?ec = "\<lparr>skill = sk, agent = name, source = join [root, CANONICAL_SOURCE, sk],
                  target = join [d, sk], reason = None\<rparr>"
  have b: "sync_before root (dryRun options) (sks1 @ sk # sks2) pre name cfg sks1 fs = (Inr r1, fs1)"
    and l: "lstatSync fs1 (join [d, sk]) = Inr (Link x)"
    and s: "syncSkills root options fs = (Inr r, fs')" using a by simp_all
  from sync_run_report[OF assms(1,3) b s assms(2,4)] obtain r2 fs2 where
    body: "sync_body root (dryRun options) name d sk r1 fs1 = (Inr r2, fs2)" and
    mem: "\<forall>e. skill e = sk \<and> agent e = name \<longrightarrow>
                 (e \<in> set (created r) \<longleftrightarrow> e \<in> set (created r2))
               \<and> (e \<in> set (skipped r) \<longleftrightarrow> e \<in> set (skipped r2))
               \<and> e \<notin> set (created r1) \<and> e \<notin> set (skipped r1)"
    unfolding assms(5) by blast
  have es: "(mk_entry root name d sk)\<lparr>reason := Some ''already linked''\<rparr> = ?es"
    and ec: "mk_entry root name d sk = ?ec" by (simp_all add: mk_entry_def)
  have r2: "r2 = (if x = exp then r1\<lparr>skipped := skipped r1 @ [?es]\<rparr>
                  else r1\<lparr>created := created r1 @ [?ec]\<rparr>)"
  proof (cases "x = exp")
    case True
    then show ?thesis
      using sync_body_link[OF l, of root "dryRun options" name r1] body assms(6) es by simp
  next
    case False
    then show ?thesis
      using sync_body_link_wrong[OF l _ body] assms(6) ec by simp
  qed
  have cls: "(e \<in> set (skipped r) \<longleftrightarrow> x = exp \<and> e = ?es)
           \<and> (e \<in> set (created r) \<longleftrightarrow> x \<noteq> exp \<and> e = ?ec)"
    if "skill e = sk \<and> agent e = name" for e
    using mem[rule_format, OF that] r2 by auto
  have k1: "skill ?es = sk \<and> agent ?es = name" and k2: "skill ?ec = sk \<and> agent ?ec = name"
    by simp_all
  show "?es \<in> set (skipped r) \<longleftrightarrow> x = exp" using cls[OF k1] by simp
  show "?ec \<in> set (created r) \<longleftrightarrow> x \<noteq> exp" using cls[OF k2] by simp
  show "\<forall>e \<in> set (skipped r). skill e = sk \<and> agent e = name \<longrightarrow>
          x = exp \<and> reason e = Some ''already linked''"
  proof (intro ballI impI)
    fix e assume "e \<in> set (skipped r)" and k: "skill e = sk \<and> agent e = name"
    then have "x = exp \<and> e = ?es" using cls[OF k] by simp
    then show "x = exp \<and> reason e = Some ''already linked''" by simp
  qed
  show "\<forall>e \<in> set (created r). skill e = sk \<and> agent e = name \<longrightarrow> x \<noteq> exp"
    using cls by blast
  show "failed r = []" using s by (rule syncSkills_failed_empty)
qed

theorem link_correct_iff_text_equal_witness:
  "discoverSkills linked_fs ''/p'' = Inr [''a'', ''b'']
   \<and> targetAgents demo_options = [(''claude-code'', \<lparr>skillsDir = ''.claude/skills''\<rparr>)]
   \<and> relative ''/p/.claude/skills'' ''/p/.agents/skills/b'' = ''../../.agents/skills/b''
   \<and> lstatSync linked_fs ''/p/.claude/skills/a'' = Inr (Link ''../../.agents/skills/a'')
   \<and> lstatSync linked_fs ''/p/.claude/skills/b'' = Inr (Link ''./../../.agents/skills/b'')
   \<and> getStatus ''/p'' demo_options linked_fs =
       Inr [\<lparr>st_agent = ''claude-code'', st_skillsDir = ''.claude/skills'',
              linked = [''a''], unlinked = [], wrong = [''b'']\<rparr>]
   \<and> syncSkills ''/p'' demo_options linked_fs = (Inr stale_b_report, demo_synced_b_fs)
   \<and> \<lparr>skill = ''b'', agent = ''claude-code'', source = ''/p/.agents/skills/b'',
        target = ''/p/.claude/skills/b'', reason = None\<rparr> \<in> set (created stale_b_report)
   \<and> \<lparr>skill = ''b'', agent = ''claude-code'', source = ''/p/.agents/skills/b'',
        target = ''/p/.claude/skills/b'', reason = Some ''already linked''\<rparr>
        \<notin> set (skipped stale_b_report)"
proof -
  have d: "discoverSkills linked_fs ''/p'' = Inr ([''a''] @ ''b'' # [])" by code_simp
  have dis: "distinct ([''a''] @ ''b'' # [])" by simp
  have t: "targetAgents demo_options = [] @ (''claude-code'', \<lparr>skillsDir = ''.claude/skills''\<rparr>) # []"
    by code_simp
  have dt: "distinct (map fst (targetAgents demo_options))" by code_simp
  have j: "''/p/.claude/skills'' = join [''/p'', skillsDir \<lparr>skillsDir = ''.claude/skills''\<rparr>]"
    by code_simp
  have e: "''../../.agents/skills/b'' = relative ''/p/.claude/skills'' (join [''/p'', CANONICAL_SOURCE, ''b''])"
    by code_simp
  have rel: "relative ''/p/.claude/skills'' ''/p/.agents/skills/b'' = ''../../.agents/skills/b''"
    by code_simp
  have js: "join [''/p'', CANONICAL_SOURCE, ''b''] = ''/p/.agents/skills/b''" by code_simp
  have jt: "join [''/p/.claude/skills'', ''b''] = ''/p/.claude/skills/b''" by code_simp
  have la: "lstatSync linked_fs ''/p/.claude/skills/a'' = Inr (Link ''../../.agents/skills/a'')"
    by code_simp
  have lb: "lstatSync linked_fs ''/p/.claude/skills/b'' = Inr (Link ''./../../.agents/skills/b'')"
    by code_simp
  have g: "getStatus ''/p'' demo_options linked_fs =
       Inr [\<lparr>st_agent = ''claude-code'', st_skillsDir = ''.claude/skills'',
              linked = [''a''], unlinked = [], wrong = [''b'']\<rparr>]"
    by code_simp
  have b: "sync_before ''/p'' (dryRun demo_options) ([''a''] @ ''b'' # []) []
             ''claude-code'' \<lparr>skillsDir = ''.claude/skills''\<rparr> [''a''] linked_fs
           = (Inr (emptyResult\<lparr>skipped :=
                 [(mk_entry ''/p'' ''claude-code'' ''/p/.claude/skills'' ''a'')
                    \<lparr>reason := Some ''already linked''\<rparr>]\<rparr>), linked_fs)"
    by code_simp
  have s: "syncSkills ''/p'' demo_options linked_fs = (Inr stale_b_report, demo_synced_b_fs)"
    by code_simp
  note c = link_correct_iff_text_equal[OF d dis t dt j e, THEN conjunct2, rule_format,
             of _ linked_fs "''./../../.agents/skills/b''" stale_b_report demo_synced_b_fs]
  have c': "(\<lparr>skill = ''b'', agent = ''claude-code'', source = ''/p/.agents/skills/b'',
        target = ''/p/.claude/skills/b'', reason = None\<rparr> \<in> set (created stale_b_report))
    \<and> \<lparr>skill = ''b'', agent = ''claude-code'', source = ''/p/.agents/skills/b'',
        target = ''/p/.claude/skills/b'', reason = Some ''already linked''\<rparr>
        \<notin> set (skipped stale_b_report)"
    using c b lb s by (simp add: js jt)
  show ?thesis using d t rel la lb g s c' by simp
qed

section \<open>A failing link creation\<close>




section \<open>A missing canonical source root\<close>

text \<open>
  C8 (as amended). When the canonical source root does not exist, \<open>syncSkills\<close>
  and \<open>getStatus\<close> fail before any pair is looked at: the only result is the
  one error naming the root, there is no report, and the file system is the
  one the call started with. \<open>cleanSkills\<close> does not consult the canonical
  source root: it never raises that error, and where the selected mirror roots
  are plain paths, pairwise different, that list pairwise different file
  names, its result is the result it has in any other such state whose mirror
  roots hold the same, whether the canonical source root exists there or not.
\<close>

theorem missing_source_aborts:
  assumes "\<not> existsSync fs (join [root, CANONICAL_SOURCE])"
  shows "syncSkills root options fs = (Inl (SourceMissing root), fs)
       \<and> getStatus root options fs = Inl (SourceMissing root)
       \<and> (\<forall>x. fst (cleanSkills root options fs) \<noteq> Inl (SourceMissing x))
       \<and> (\<forall>fs0. plain_mirrors fs root options \<and> plain_mirrors fs0 root options
              \<and> distinct (map comps (mirror_roots root options))
              \<and> tidy_mirrors fs root options
              \<and> (\<forall>d \<in> set (mirror_roots root options). get fs0 (comps d) = get fs (comps d))
            \<longrightarrow> fst (cleanSkills root options fs) = fst (cleanSkills root options fs0))"
proof (intro conjI allI impI)
  show "syncSkills root options fs = (Inl (SourceMissing root), fs)"
    using assms by (simp add: syncSkills_def discoverSkills_def)
  show "getStatus root options fs = Inl (SourceMissing root)"
    using assms by (simp add: getStatus_def discoverSkills_def)
next
  fix x show "fst (cleanSkills root options fs) \<noteq> Inl (SourceMissing x)"
    by (rule cleanSkills_error)
next
  fix fs0
  assume a: "plain_mirrors fs root options \<and> plain_mirrors fs0 root options
              \<and> distinct (map comps (mirror_roots root options))
              \<and> tidy_mirrors fs root options
              \<and> (\<forall>d \<in> set (mirror_roots root options). get fs0 (comps d) = get fs (comps d))"
  then have 1: "plain_mirrors fs root options" and 2: "plain_mirrors fs0 root options"
    and 3: "distinct (map comps (mirror_roots root options))"
    and 4: "tidy_mirrors fs root options"
    and 5: "\<forall>d \<in> set (mirror_roots root options). get fs0 (comps d) = get fs (comps d)"
    by blast+
  from cleanSkills_mirror_only[OF 1 2 3 4 5]
  show "fst (cleanSkills root options fs) = fst (cleanSkills root options fs0)" by simp
qed

theorem missing_source_aborts_witness:
  "\<not> existsSync orphan_fs (join [''/p'', CANONICAL_SOURCE])
   \<and> syncSkills ''/p'' demo_options orphan_fs = (Inl (SourceMissing ''/p''), orphan_fs)
   \<and> getStatus ''/p'' demo_options orphan_fs = Inl (SourceMissing ''/p'')
   \<and> existsSync single_synced_fs (join [''/p'', CANONICAL_SOURCE])
   \<and> mirror_roots ''/p'' demo_options = [''/p/.claude/skills'']
   \<and> get single_synced_fs (comps ''/p/.claude/skills'') = get orphan_fs (comps ''/p/.claude/skills'')
   \<and> fst (cleanSkills ''/p'' demo_options single_synced_fs) = Inr single_clean_report
   \<and> fst (cleanSkills ''/p'' demo_options orphan_fs) = Inr single_clean_report"
proof -
  have h: "\<not> existsSync orphan_fs (join [''/p'', CANONICAL_SOURCE])" by code_simp
  have e: "existsSync single_synced_fs (join [''/p'', CANONICAL_SOURCE])" by code_simp
  have p: "plain_mirrors orphan_fs ''/p'' demo_options" by code_simp
  have p0: "plain_mirrors single_synced_fs ''/p'' demo_options" by code_simp
  have m: "mirror_roots ''/p'' demo_options = [''/p/.claude/skills'']" by code_simp
  have dm: "distinct (map comps (mirror_roots ''/p'' demo_options))" by code_simp
  have t: "tidy_mirrors orphan_fs ''/p'' demo_options" by code_simp
  have g: "get single_synced_fs (comps ''/p/.claude/skills'') = get orphan_fs (comps ''/p/.claude/skills'')"
    by code_simp
  have g': "\<forall>d \<in> set (mirror_roots ''/p'' demo_options).
              get single_synced_fs (comps d) = get orphan_fs (comps d)"
    using g by (simp add: m)
  have c0: "fst (cleanSkills ''/p'' demo_options single_synced_fs) = Inr single_clean_report"
    by code_simp
  note c = missing_source_aborts[OF h, of demo_options]
  have c4: "fst (cleanSkills ''/p'' demo_options orphan_fs) = Inr single_clean_report"
    using c[THEN conjunct2, THEN conjunct2, THEN conjunct2, rule_format, of single_synced_fs]
          p p0 dm t g' c0 by simp
  show ?thesis using h c e m g c0 c4 by simp
qed

text \<open>
  \<open>cleanSkills\<close> never consults the canonical source root. In a project without
  that root and with a link left over in a mirror root, it returns a report
  and removes the link.
\<close>

theorem clean_without_source_counterexample:
  "\<not> existsSync orphan_fs (join [''/p'', CANONICAL_SOURCE])
   \<and> cleanSkills ''/p'' demo_options orphan_fs =
       (Inr \<lparr>created = [\<lparr>skill = ''a'', agent = ''claude-code'',
                           source = ''/p/.agents/skills/a'', target = ''/p/.claude/skills/a'',
                           reason = None\<rparr>],
             skipped = [], failed = []\<rparr>,
        Dir True [(''p'', Dir True [(''.claude'', Dir True [(''skills'', Dir True [])])])])"
  by code_simp

section \<open>Unreadable link metadata\<close>




section \<open>What counts as an item\<close>

text \<open>
  C10. The items are the entries of the canonical source root whose own type
  is directory, in the order of the listing. Every outcome of a \<open>syncSkills\<close>
  report and every name in a \<open>getStatus\<close> bucket is such an entry; a regular
  file or a symbolic link in the canonical source root never shows up. No
  link is made for them either: whatever the run does, every symbolic link
  that the state holds afterwards and did not hold before carries the text
  generated for an item and a selected agent; and where the selected mirror
  roots are plain paths, none strictly inside another, and a run returns a
  report, \<^verbatim>\<open>lstat\<close> finds at the link path of a non-directory entry, under
  every selected mirror root, exactly what it found before the run.
\<close>

theorem only_directories_are_items:
  assumes "readdirSync fs (join [root, CANONICAL_SOURCE]) = Inr entries"
  shows "discoverSkills fs root = Inr (map fst (filter (\<lambda>e. isDirectory (snd e)) entries))
       \<and> (\<forall>r fs'. syncSkills root options fs = (Inr r, fs') \<longrightarrow>
            (\<forall>e \<in> set (created r @ skipped r @ failed r).
               \<exists>n. (skill e, n) \<in> set entries \<and> isDirectory n))
       \<and> (\<forall>l x. view (snd (syncSkills root options fs)) l = Some (KLink x) \<longrightarrow>
            view fs l = Some (KLink x)
            \<or> (\<exists>a \<in> set (targetAgents options). \<exists>e \<in> set entries. isDirectory (snd e)
                 \<and> x = relative (join [root, skillsDir (snd a)])
                         (join [root, CANONICAL_SOURCE, fst e])))
       \<and> (\<forall>r fs'. plain_mirrors fs root options \<and> distinct (map fst entries)
              \<and> (\<forall>e \<in> set entries. valid_name (fst e))
              \<and> syncSkills root options fs = (Inr r, fs') \<longrightarrow>
            (\<forall>a \<in> set (targetAgents options). \<forall>e \<in> set entries. \<not> isDirectory (snd e) \<longrightarrow>
               (\<forall>n. lstatSync fs' (join [join [root, skillsDir (snd a)], fst e]) = Inr n
                     \<longleftrightarrow> lstatSync fs (join [join [root, skillsDir (snd a)], fst e]) = Inr n)))
       \<and> (\<forall>sts. getStatus root options fs = Inr sts \<longrightarrow>
            (\<forall>st \<in> set sts. \<forall>s \<in> set (linked st @ unlinked st @ wrong st).
               \<exists>n. (s, n) \<in> set entries \<and> isDirectory n))"
proof -
  let ?skills = "map fst (filter (\<lambda>e. isDirectory (snd e)) entries)"
  have d: "discoverSkills fs root = Inr ?skills"
    using assms by (rule discoverSkills_readdir)
  have mem: "s \<in> set ?skills \<Longrightarrow> \<exists>n. (s, n) \<in> set entries \<and> isDirectory n" for s
    by auto
  have sync: "\<forall>e \<in> set (created r @ skipped r @ failed r). \<exists>n. (skill e, n) \<in> set entries \<and> isDirectory n"
    if "syncSkills root options fs = (Inr r, fs')" for r fs'
  proof -
    from that d have "sync_agents root (dryRun options) ?skills (targetAgents options) emptyResult fs
                        = (Inr r, fs')"
      by (simp add: syncSkills_def)
    from sync_agents_outcomes[OF this]
    have "\<forall>e \<in> set (outcomes r). skill e \<in> set ?skills"
      by (auto simp: outcomes_def emptyResult_def)
    then show ?thesis using mem unfolding outcomes_def by blast
  qed
  have links: "view fs l = Some (KLink x)
            \<or> (\<exists>a \<in> set (targetAgents options). \<exists>e \<in> set entries. isDirectory (snd e)
                 \<and> x = relative (join [root, skillsDir (snd a)])
                         (join [root, CANONICAL_SOURCE, fst e]))"
    if v: "view (snd (syncSkills root options fs)) l = Some (KLink x)" for l x
  proof -
    from lf_syncSkills[OF d, of options] v
    have "view fs l = Some (KLink x) \<or> x \<in> item_texts root options ?skills"
      unfolding links_from_def by blast
    then show ?thesis
    proof
      assume "view fs l = Some (KLink x)"
      then show ?thesis by simp
    next
      assume "x \<in> item_texts root options ?skills"
      then obtain a sk where a: "a \<in> set (targetAgents options)" and sk: "sk \<in> set ?skills"
        and x: "x = expected root (mirror_root root (snd a)) sk"
        unfolding item_texts_def by blast
      from sk obtain e where e: "e \<in> set entries" "isDirectory (snd e)" "fst e = sk" by auto
      have "x = relative (join [root, skillsDir (snd a)]) (join [root, CANONICAL_SOURCE, fst e])"
        using x e(3) by (simp add: expected_def mirror_root_def)
      then show ?thesis using a e(1,2) by blast
    qed
  qed
  have keep: "lstatSync fs' (join [join [root, skillsDir (snd a)], fst e]) = Inr n
                \<longleftrightarrow> lstatSync fs (join [join [root, skillsDir (snd a)], fst e]) = Inr n"
    if pm: "plain_mirrors fs root options" and dis: "distinct (map fst entries)"
      and vn: "\<forall>e \<in> set entries. valid_name (fst e)"
      and run: "syncSkills root options fs = (Inr r, fs')"
      and a: "a \<in> set (targetAgents options)" and e: "e \<in> set entries" and nd: "\<not> isDirectory (snd e)"
    for r fs' a e n
  proof (cases "dryRun options")
    case True
    from syncSkills_dry[OF True, of root fs] run have "fs' = fs" by simp
    then show ?thesis by simp
  next
    case False
    let ?d = "mirror_root root (snd a)"
    let ?nm = "fst e"
    note ctx = plain_mirrors_ctx[OF pm]
    have vs: "\<forall>sk \<in> set ?skills. valid_name sk" using vn by auto
    note after = syncSkills_plain[OF pm d vs False run]
    have dD: "?d \<in> set (mirror_roots root options)" using ctx(3) a by simp
    have pd: "plain_path ?d" and pl: "plain fs (comps ?d)" and pl1: "plain fs' (comps ?d)"
      using ctx(1,4) after(1) dD by auto
    have vnm: "valid_name ?nm" using vn e by simp
    have notitem: "?nm \<notin> set ?skills"
    proof
      assume "?nm \<in> set ?skills"
      then obtain e' where e': "e' \<in> set entries" "isDirectory (snd e')" "fst e' = ?nm" by auto
      have "(?nm, snd e) \<in> set entries" using e by simp
      moreover have "(?nm, snd e') \<in> set entries" using e'(1,3) by (metis prod.collapse)
      ultimately have "snd e = snd e'" using eq_key_imp_eq_value[OF dis] by blast
      then show False using nd e'(2) by simp
    qed
    have same: "look fs' (comps ?d) ?nm = look fs (comps ?d) ?nm"
      using after(3)[rule_format, OF dD, of ?nm] notitem by blast
    have "lstatSync fs' (join [?d, ?nm]) = Inr n \<longleftrightarrow> lstatSync fs (join [?d, ?nm]) = Inr n"
    proof
      assume l: "lstatSync fs' (join [?d, ?nm]) = Inr n"
      from lstat_plain_inr[OF pl1 pd vnm l] same
      have "look fs (comps ?d) ?nm = Some n" and len: "length (join [?d, ?nm]) < PATH_MAX" by simp_all
      from lstat_plain_some[OF pl pd vnm len this(1)]
      show "lstatSync fs (join [?d, ?nm]) = Inr n" .
    next
      assume l: "lstatSync fs (join [?d, ?nm]) = Inr n"
      from lstat_plain_inr[OF pl pd vnm l] same
      have "look fs' (comps ?d) ?nm = Some n" and len: "length (join [?d, ?nm]) < PATH_MAX" by simp_all
      from lstat_plain_some[OF pl1 pd vnm len this(1)]
      show "lstatSync fs' (join [?d, ?nm]) = Inr n" .
    qed
    then show ?thesis by (simp add: mirror_root_def)
  qed
  have stat: "\<forall>st \<in> set sts. \<forall>s \<in> set (linked st @ unlinked st @ wrong st).
               \<exists>n. (s, n) \<in> set entries \<and> isDirectory n"
    if "getStatus root options fs = Inr sts" for sts
  proof -
    from that d have "status_agents root fs ?skills (targetAgents options) [] = Inr sts"
      by (simp add: getStatus_def)
    from status_agents_names[OF this]
    have "\<forall>st \<in> set sts. set (linked st @ unlinked st @ wrong st) \<subseteq> set ?skills" by simp
    then show ?thesis using mem by blast
  qed
  show ?thesis
  proof (intro conjI allI impI ballI)
    show "discoverSkills fs root = Inr ?skills" by (rule d)
  next
    fix r fs' e
    assume "syncSkills root options fs = (Inr r, fs')" "e \<in> set (created r @ skipped r @ failed r)"
    then show "\<exists>n. (skill e, n) \<in> set entries \<and> isDirectory n" using sync by blast
  next
    fix l x assume "view (snd (syncSkills root options fs)) l = Some (KLink x)"
    then show "view fs l = Some (KLink x)
            \<or> (\<exists>a \<in> set (targetAgents options). \<exists>e \<in> set entries. isDirectory (snd e)
                 \<and> x = relative (join [root, skillsDir (snd a)])
                         (join [root, CANONICAL_SOURCE, fst e]))"
      by (rule links)
  next
    fix r fs' a e n
    assume h: "plain_mirrors fs root options \<and> distinct (map fst entries)
              \<and> (\<forall>e \<in> set entries. valid_name (fst e))
              \<and> syncSkills root options fs = (Inr r, fs')"
      and a: "a \<in> set (targetAgents options)" and e: "e \<in> set entries" and nd: "\<not> isDirectory (snd e)"
    from h have 1: "plain_mirrors fs root options" and 2: "distinct (map fst entries)"
      and 3: "\<forall>e \<in> set entries. valid_name (fst e)"
      and 4: "syncSkills root options fs = (Inr r, fs')" by blast+
    show "lstatSync fs' (join [join [root, skillsDir (snd a)], fst e]) = Inr n
                \<longleftrightarrow> lstatSync fs (join [join [root, skillsDir (snd a)], fst e]) = Inr n"
      using keep[OF 1 2 3 4 a e nd] .
  next
    fix sts st s
    assume "getStatus root options fs = Inr sts" "st \<in> set sts"
      "s \<in> set (linked st @ unlinked st @ wrong st)"
    then show "\<exists>n. (s, n) \<in> set entries \<and> isDirectory n" using stat by blast
  qed
qed

theorem only_directories_are_items_witness:
  "readdirSync demo_fs (join [''/p'', CANONICAL_SOURCE]) =
     Inr [(''a'', Dir True [(''SKILL.md'', File ''# a'')]), (''b'', Dir True []),
          (''ln'', Link ''a''), (''notes.txt'', File ''n'')]
   \<and> discoverSkills demo_fs ''/p'' = Inr [''a'', ''b'']
   \<and> plain_mirrors demo_fs ''/p'' demo_options
   \<and> syncSkills ''/p'' demo_options demo_fs = (Inr demo_report, demo_synced_fs)
   \<and> map skill (created demo_report @ skipped demo_report @ failed demo_report) = [''a'', ''b'']
   \<and> lstatSync demo_fs ''/p/.claude/skills/ln'' = Inl ENOENT
   \<and> lstatSync demo_fs ''/p/.claude/skills/notes.txt'' = Inl ENOENT
   \<and> lstatSync demo_synced_fs ''/p/.claude/skills/ln'' \<noteq> Inr (Link ''../../.agents/skills/ln'')
   \<and> lstatSync demo_synced_fs ''/p/.claude/skills/notes.txt''
        \<noteq> Inr (Link ''../../.agents/skills/notes.txt'')
   \<and> lstatSync demo_synced_fs ''/p/.claude/skills/ln'' = Inl ENOENT
   \<and> lstatSync demo_synced_fs ''/p/.claude/skills/notes.txt'' = Inl ENOENT
   \<and> getStatus ''/p'' demo_options demo_synced_fs =
       Inr [\<lparr>st_agent = ''claude-code'', st_skillsDir = ''.claude/skills'',
              linked = [''a'', ''b''], unlinked = [], wrong = []\<rparr>]"
proof -
  let ?entries = "[(''a'', Dir True [(''SKILL.md'', File ''# a'')]), (''b'', Dir True []),
          (''ln'', Link ''a''), (''notes.txt'', File ''n'')]"
  have h: "readdirSync demo_fs (join [''/p'', CANONICAL_SOURCE]) = Inr ?entries"
    by code_simp
  have r: "syncSkills ''/p'' demo_options demo_fs = (Inr demo_report, demo_synced_fs)"
    by code_simp
  have pm: "plain_mirrors demo_fs ''/p'' demo_options" by code_simp
  have dis: "distinct (map fst ?entries)" by simp
  have vn: "\<forall>e \<in> set ?entries. valid_name (fst e)" by code_simp
  have t: "targetAgents demo_options = [(''claude-code'', \<lparr>skillsDir = ''.claude/skills''\<rparr>)]"
    by code_simp
  have j1: "join [join [''/p'', ''.claude/skills''], ''ln'']
              = ''/p/.claude/skills/ln''" by code_simp
  have j2: "join [join [''/p'', ''.claude/skills''], ''notes.txt'']
              = ''/p/.claude/skills/notes.txt''" by code_simp
  have l1: "lstatSync demo_fs ''/p/.claude/skills/ln'' = Inl ENOENT" by code_simp
  have l2: "lstatSync demo_fs ''/p/.claude/skills/notes.txt'' = Inl ENOENT" by code_simp
  note c = only_directories_are_items[OF h, of demo_options]
  have d: "discoverSkills demo_fs ''/p'' = Inr [''a'', ''b'']"
    using c by (simp add: isDirectory_def)
  note k = c[THEN conjunct2, THEN conjunct2, THEN conjunct2, THEN conjunct1, rule_format,
             of demo_report demo_synced_fs "(''claude-code'', \<lparr>skillsDir = ''.claude/skills''\<rparr>)"]
  have k1: "lstatSync demo_synced_fs ''/p/.claude/skills/ln'' \<noteq> Inr (Link ''../../.agents/skills/ln'')"
    using k[of "(''ln'', Link ''a'')" "Link ''../../.agents/skills/ln''"] pm dis vn r l1
    by (simp add: t j1 isDirectory_def)
  have k2: "lstatSync demo_synced_fs ''/p/.claude/skills/notes.txt''
              \<noteq> Inr (Link ''../../.agents/skills/notes.txt'')"
    using k[of "(''notes.txt'', File ''n'')" "Link ''../../.agents/skills/notes.txt''"] pm dis vn r l2
    by (simp add: t j2 isDirectory_def)
  have m: "map skill (created demo_report @ skipped demo_report @ failed demo_report) = [''a'', ''b'']"
    by (simp add: demo_report_def)
  have g: "getStatus ''/p'' demo_options demo_synced_fs =
       Inr [\<lparr>st_agent = ''claude-code'', st_skillsDir = ''.claude/skills'',
              linked = [''a'', ''b''], unlinked = [], wrong = []\<rparr>]"
    by code_simp
  have l3: "lstatSync demo_synced_fs ''/p/.claude/skills/ln'' = Inl ENOENT" by code_simp
  have l4: "lstatSync demo_synced_fs ''/p/.claude/skills/notes.txt'' = Inl ENOENT" by code_simp
  show ?thesis using h d pm r m l1 l2 k1 k2 l3 l4 g by simp
qed

end
